theory Spec2Isabelle
  imports Main "HOL-Library.Word"
begin

unbundle bit_operations_syntax

section \<open>Python values used by \<open>tools/validate_sedp.py\<close>\<close>

text \<open>
  A \<open>bytes\<close> object is a list of 8-bit words.  Python integers are unbounded and are
  modelled as \<open>int\<close>.  Program text that is pure ASCII (table names, messages) is a
  \<open>string\<close>; a \<open>str\<close> obtained by decoding network bytes is a list of Unicode code
  points (\<open>pystr\<close>), since it may hold characters beyond 8 bits.
\<close>

type_synonym byte = "8 word"
type_synonym bytes = "byte list"
type_synonym pystr = "nat list"

datatype error = IndexError | StructError | ValueError string

definition ascii :: "string \<Rightarrow> pystr" where
  "ascii s = map (\<lambda>c. of_char c) s"

subsection \<open>The \<open>in\<close> operator on strings\<close>

fun startswith :: "string \<Rightarrow> string \<Rightarrow> bool" where
  "startswith [] s = True"
| "startswith (p # ps) [] = False"
| "startswith (p # ps) (c # cs) = (p = c \<and> startswith ps cs)"

fun str_contains :: "string \<Rightarrow> string \<Rightarrow> bool" where
  "str_contains sub [] = (sub = [])"
| "str_contains sub (c # cs) = (startswith sub (c # cs) \<or> str_contains sub cs)"

subsection \<open>Indexing and slicing\<close>

text \<open>
  \<open>xs[i]\<close> raises \<open>IndexError\<close> out of range and counts a negative index from the
  end.  A slice never raises: each bound is moved into \<open>0 .. len(xs)\<close> (a negative one
  after adding \<open>len(xs)\<close>), and an empty range gives the empty sequence.
\<close>

definition py_index :: "'a list \<Rightarrow> int \<Rightarrow> error + 'a" where
  "py_index xs i =
    (let n = int (length xs); j = (if i < 0 then i + n else i)
     in if 0 \<le> j \<and> j < n then Inr (xs ! nat j) else Inl IndexError)"

definition py_clamp :: "nat \<Rightarrow> int \<Rightarrow> nat" where
  "py_clamp n i = (if i < 0 then nat (max 0 (i + int n)) else min n (nat i))"

definition py_slice :: "'a list \<Rightarrow> int \<Rightarrow> int \<Rightarrow> 'a list" where
  "py_slice xs i j =
    (let a = py_clamp (length xs) i; b = py_clamp (length xs) j
     in take (b - a) (drop a xs))"

definition py_slice_from :: "'a list \<Rightarrow> int \<Rightarrow> 'a list" where
  "py_slice_from xs i = drop (py_clamp (length xs) i) xs"

definition py_slice_to :: "'a list \<Rightarrow> int \<Rightarrow> 'a list" where
  "py_slice_to xs j = take (py_clamp (length xs) j) xs"

subsection \<open>\<open>struct.unpack\<close>\<close>

text \<open>
  \<open>struct.unpack(fmt, buf)\<close> raises \<open>struct.error\<close> unless \<open>buf\<close> has exactly the
  size of the format.  \<open>H\<close>, \<open>I\<close> and \<open>Q\<close> are unsigned integers of 2, 4 and 8 bytes;
  \<open><\<close> is little-endian and \<open>>\<close> big-endian.
\<close>

definition le_value :: "bytes \<Rightarrow> int" where
  "le_value bs = foldr (\<lambda>b v. uint b + 256 * v) bs 0"

definition be_value :: "bytes \<Rightarrow> int" where
  "be_value bs = foldl (\<lambda>v b. 256 * v + uint b) 0 bs"

definition unpack_le :: "nat \<Rightarrow> bytes \<Rightarrow> error + int" where
  "unpack_le n bs = (if length bs = n then Inr (le_value bs) else Inl StructError)"

definition unpack_be :: "nat \<Rightarrow> bytes \<Rightarrow> error + int" where
  "unpack_be n bs = (if length bs = n then Inr (be_value bs) else Inl StructError)"

abbreviation unpack_H_le :: "bytes \<Rightarrow> error + int" where "unpack_H_le \<equiv> unpack_le 2"
abbreviation unpack_I_le :: "bytes \<Rightarrow> error + int" where "unpack_I_le \<equiv> unpack_le 4"
abbreviation unpack_Q_le :: "bytes \<Rightarrow> error + int" where "unpack_Q_le \<equiv> unpack_le 8"
abbreviation unpack_H_be :: "bytes \<Rightarrow> error + int" where "unpack_H_be \<equiv> unpack_be 2"
abbreviation unpack_I_be :: "bytes \<Rightarrow> error + int" where "unpack_I_be \<equiv> unpack_be 4"

section \<open>RTPS constants\<close>

definition RTPS_SUBMSG_DATA :: int where
  "RTPS_SUBMSG_DATA = 0x15"

definition ENTITY_IDS :: "(int \<times> string) list" where
  "ENTITY_IDS =
    [(0x000000C0, ''ENTITYID_UNKNOWN''),
     (0x000100C2, ''ENTITYID_SPDP_BUILTIN_PARTICIPANT_WRITER''),
     (0x000001C1, ''ENTITYID_SPDP_BUILTIN_PARTICIPANT_READER''),
     (0x000003C2, ''ENTITYID_SEDP_BUILTIN_PUBLICATIONS_WRITER''),
     (0x000004C2, ''ENTITYID_SEDP_BUILTIN_PUBLICATIONS_READER''),
     (0x000003C7, ''ENTITYID_SEDP_BUILTIN_SUBSCRIPTIONS_WRITER''),
     (0x000004C7, ''ENTITYID_SEDP_BUILTIN_SUBSCRIPTIONS_READER''),
     (0x000200C2, ''ENTITYID_SEDP_BUILTIN_TOPIC_WRITER''),
     (0x000201C2, ''ENTITYID_SEDP_BUILTIN_TOPIC_READER'')]"

section \<open>Entity classification\<close>

definition classify_entity_id :: "int \<Rightarrow> string" where
  "classify_entity_id entity_id =
    (case map_of ENTITY_IDS entity_id of
       Some name \<Rightarrow>
         if str_contains ''SPDP'' name then ''SPDP''
         else if str_contains ''PUBLICATIONS'' name then ''SEDP_PUB''
         else if str_contains ''SUBSCRIPTIONS'' name then ''SEDP_SUB''
         else ''BUILTIN''
     | None \<Rightarrow> ''USER'')"

section \<open>Submessage decoding\<close>

text \<open>
  A submessage is a dictionary in the source.  The keys \<open>extra_flags\<close> \<dots> \<open>payload\<close> are
  set together, for a DATA submessage with a body of at least 20 bytes, and are absent
  otherwise: they are one optional record here.
\<close>

record data_fields =
  extra_flags :: int
  octets_to_inline_qos :: int
  reader_id :: int
  writer_id :: int
  sequence_number :: int
  entity_type :: string
  payload :: bytes

record submsg =
  submsg_id :: int
  submsg_flags :: int
  submsg_length :: int
  submsg_data :: bytes
  submsg_offset :: int
  submsg_fields :: "data_fields option"

definition parse_data_fields :: "bytes \<Rightarrow> error + data_fields" where
  "parse_data_fields body =
    (case unpack_H_le (py_slice body 0 2) of Inl e \<Rightarrow> Inl e | Inr ef \<Rightarrow>
     case unpack_H_le (py_slice body 2 4) of Inl e \<Rightarrow> Inl e | Inr qos_offset \<Rightarrow>
     case unpack_I_be (py_slice body 4 8) of Inl e \<Rightarrow> Inl e | Inr rid \<Rightarrow>
     case unpack_I_be (py_slice body 8 12) of Inl e \<Rightarrow> Inl e | Inr wid \<Rightarrow>
     case unpack_Q_le (py_slice body 12 20) of Inl e \<Rightarrow> Inl e | Inr sn \<Rightarrow>
       Inr \<lparr>extra_flags = ef, octets_to_inline_qos = qos_offset,
            reader_id = rid, writer_id = wid, sequence_number = sn,
            entity_type = classify_entity_id wid,
            payload = (if qos_offset \<ge> 20 then py_slice_from body qos_offset
                       else py_slice_from body 20)\<rparr>)"

text \<open>One turn of the loop of \<open>parse_submessages\<close>, up to the record it appends.\<close>

definition read_submsg :: "bytes \<Rightarrow> int \<Rightarrow> error + submsg" where
  "read_submsg data offset =
    (case py_index data offset of Inl e \<Rightarrow> Inl e | Inr b0 \<Rightarrow>
     case py_index data (offset + 1) of Inl e \<Rightarrow> Inl e | Inr b1 \<Rightarrow>
     case unpack_H_le (py_slice data (offset + 2) (offset + 4)) of Inl e \<Rightarrow> Inl e
     | Inr octets_to_next \<Rightarrow>
       let body = (if octets_to_next > 0
                   then py_slice data (offset + 4) (offset + 4 + octets_to_next) else [])
       in if uint b0 = RTPS_SUBMSG_DATA \<and> int (length body) \<ge> 20
          then (case parse_data_fields body of Inl e \<Rightarrow> Inl e
                | Inr d \<Rightarrow>
                  Inr \<lparr>submsg_id = uint b0, submsg_flags = uint b1,
                       submsg_length = octets_to_next, submsg_data = body,
                       submsg_offset = offset, submsg_fields = Some d\<rparr>)
          else Inr \<lparr>submsg_id = uint b0, submsg_flags = uint b1,
                    submsg_length = octets_to_next, submsg_data = body,
                    submsg_offset = offset, submsg_fields = None\<rparr>)"

function parse_submessages_loop :: "bytes \<Rightarrow> int \<Rightarrow> submsg list \<Rightarrow> error + submsg list" where
  "parse_submessages_loop data offset submessages =
    (if offset < int (length data) then
       if offset + 4 > int (length data) then Inr submessages
       else (case read_submsg data offset of Inl e \<Rightarrow> Inl e
             | Inr s \<Rightarrow>
               if submsg_length s = 0 then Inr (submessages @ [s])
               else parse_submessages_loop data (offset + 4 + submsg_length s)
                      (submessages @ [s]))
     else Inr submessages)"
  by pat_completeness auto
termination
proof (relation "measure (\<lambda>(data, offset, submessages). nat (int (length data) - offset))")
  show "wf (measure (\<lambda>(data, offset, submessages). nat (int (length data) - offset)))"
    by simp
next
  fix data :: bytes and offset :: int and submessages :: "submsg list" and s :: submsg
  assume "offset < int (length data)" and "read_submsg data offset = Inr s"
  moreover have "0 \<le> le_value bs" for bs
    unfolding le_value_def by (induction bs) simp_all
  then have "0 \<le> submsg_length s"
    using \<open>read_submsg data offset = Inr s\<close>
    by (auto simp: read_submsg_def unpack_le_def Let_def split: sum.splits if_splits)
  ultimately
  show "((data, offset + 4 + submsg_length s, submessages @ [s]), (data, offset, submessages))
      \<in> measure (\<lambda>(data, offset, submessages). nat (int (length data) - offset))"
    by simp
qed

declare parse_submessages_loop.simps [simp del]

definition parse_submessages :: "bytes \<Rightarrow> int \<Rightarrow> error + submsg list" where
  "parse_submessages data offset = parse_submessages_loop data offset []"

section \<open>CDR parameter lists\<close>

subsection \<open>Parameter ids\<close>

definition PID_MAP :: "(int \<times> string) list" where
  "PID_MAP =
    [(0x0001, ''PID_SENTINEL''),
     (0x0002, ''PID_USER_DATA''),
     (0x0003, ''PID_TOPIC_NAME''),
     (0x0004, ''PID_TYPE_NAME''),
     (0x0005, ''PID_GROUP_DATA''),
     (0x0006, ''PID_TOPIC_DATA''),
     (0x0007, ''PID_DURABILITY''),
     (0x000B, ''PID_DEADLINE''),
     (0x000D, ''PID_LATENCY_BUDGET''),
     (0x000F, ''PID_LIVELINESS''),
     (0x0011, ''PID_RELIABILITY''),
     (0x0016, ''PID_LIFESPAN''),
     (0x001A, ''PID_DESTINATION_ORDER''),
     (0x001D, ''PID_PRESENTATION''),
     (0x001F, ''PID_PARTITION''),
     (0x0023, ''PID_TIME_BASED_FILTER''),
     (0x0025, ''PID_OWNERSHIP''),
     (0x0029, ''PID_OWNERSHIP_STRENGTH''),
     (0x002B, ''PID_DESTINATION_ORDER''),
     (0x002F, ''PID_METATRAFFIC_UNICAST_LOCATOR''),
     (0x0030, ''PID_METATRAFFIC_MULTICAST_LOCATOR''),
     (0x0031, ''PID_DEFAULT_UNICAST_LOCATOR''),
     (0x0032, ''PID_DEFAULT_MULTICAST_LOCATOR''),
     (0x0033, ''PID_METATRAFFIC_UNICAST_IPADDRESS''),
     (0x0034, ''PID_METATRAFFIC_MULTICAST_IPADDRESS''),
     (0x0035, ''PID_DEFAULT_UNICAST_IPADDRESS''),
     (0x0040, ''PID_PROTOCOL_VERSION''),
     (0x0041, ''PID_VENDOR_ID''),
     (0x0043, ''PID_MULTICAST_IPADDRESS''),
     (0x0044, ''PID_DEFAULT_UNICAST_PORT''),
     (0x0045, ''PID_METATRAFFIC_UNICAST_PORT''),
     (0x0046, ''PID_METATRAFFIC_MULTICAST_PORT''),
     (0x0048, ''PID_UNICAST_LOCATOR''),
     (0x0050, ''PID_EXPECTS_INLINE_QOS''),
     (0x0058, ''PID_PARTICIPANT_MANUAL_LIVELINESS_COUNT''),
     (0x0059, ''PID_PARTICIPANT_BUILTIN_ENDPOINTS''),
     (0x005A, ''PID_ENDPOINT_GUID''),
     (0x005B, ''PID_PARTICIPANT_GUID''),
     (0x005C, ''PID_PARTICIPANT_LEASE_DURATION''),
     (0x005D, ''PID_CONTENT_FILTER_PROPERTY''),
     (0x005E, ''PID_PARTICIPANT_ENTITY_ID''),
     (0x0060, ''PID_GROUP_GUID''),
     (0x0061, ''PID_GROUP_ENTITYID''),
     (0x0062, ''PID_BUILTIN_ENDPOINT_SET''),
     (0x0063, ''PID_PROPERTY_LIST''),
     (0x0071, ''PID_TYPE_MAX_SIZE_SERIALIZED''),
     (0x0072, ''PID_ENTITY_NAME''),
     (0x0073, ''PID_KEY_HASH''),
     (0x0074, ''PID_STATUS_INFO''),
     (0x0075, ''PID_CONTENT_FILTER_INFO''),
     (0x8000, ''PID_RELATED_SAMPLE_IDENTITY''),
     (0x8001, ''PID_TOPIC_QUERY_GUID''),
     (0x8002, ''PID_DATA_REPRESENTATION''),
     (0x8003, ''PID_TYPE_CONSISTENCY_ENFORCEMENT''),
     (0x8004, ''PID_TYPE_INFORMATION''),
     (0x8005, ''PID_TYPE_OBJECT''),
     (0x8007, ''PID_DATA_TAGS''),
     (0x8014, ''PID_EXTENDED_BUILTIN_ENDPOINTS''),
     (0x8016, ''PID_PRODUCT_VERSION''),
     (0x8017, ''PID_PLUGIN_PROMISCUITY_KIND''),
     (0x8018, ''PID_ENTITY_VIRTUAL_GUID''),
     (0x8019, ''PID_SERVICE_INSTANCE_NAME'')]"

definition REQUIRED_SEDP_WRITER_PIDS :: "(int \<times> string) list" where
  "REQUIRED_SEDP_WRITER_PIDS =
    [(0x005A, ''PID_ENDPOINT_GUID''),
     (0x0003, ''PID_TOPIC_NAME''),
     (0x0004, ''PID_TYPE_NAME''),
     (0x001A, ''PID_RELIABILITY''),
     (0x001D, ''PID_DURABILITY'')]"

definition REQUIRED_SEDP_READER_PIDS :: "(int \<times> string) list" where
  "REQUIRED_SEDP_READER_PIDS =
    [(0x005A, ''PID_ENDPOINT_GUID''),
     (0x0003, ''PID_TOPIC_NAME''),
     (0x0004, ''PID_TYPE_NAME''),
     (0x001A, ''PID_RELIABILITY''),
     (0x001D, ''PID_DURABILITY'')]"

subsection \<open>Formatting and decoding of text\<close>

text \<open>
  \<open>format_04X n\<close> is \<open>f"{n:04X}"\<close>: upper-case hexadecimal, padded with zeros to four
  characters, the sign included; \<open>format_08x\<close> is \<open>f"{n:08x}"\<close>.  \<open>str_int\<close> is \<open>str\<close> on an integer and \<open>bytes_hex\<close>
  is \<open>bytes.hex()\<close>.
\<close>

definition hex_digit_upper :: "nat \<Rightarrow> char" where
  "hex_digit_upper d = ''0123456789ABCDEF'' ! d"

definition hex_digit_lower :: "nat \<Rightarrow> char" where
  "hex_digit_lower d = ''0123456789abcdef'' ! d"

fun hex_upper :: "nat \<Rightarrow> string" where
  "hex_upper n =
    (if n < 16 then [hex_digit_upper n]
     else hex_upper (n div 16) @ [hex_digit_upper (n mod 16)])"

definition format_04X :: "int \<Rightarrow> string" where
  "format_04X n =
    (if n < 0
     then (let s = hex_upper (nat (- n)) in CHR ''-'' # replicate (3 - length s) CHR ''0'' @ s)
     else (let s = hex_upper (nat n) in replicate (4 - length s) CHR ''0'' @ s))"

fun hex_lower :: "nat \<Rightarrow> string" where
  "hex_lower n =
    (if n < 16 then [hex_digit_lower n]
     else hex_lower (n div 16) @ [hex_digit_lower (n mod 16)])"

definition format_08x :: "int \<Rightarrow> string" where
  "format_08x n =
    (if n < 0
     then (let s = hex_lower (nat (- n)) in CHR ''-'' # replicate (7 - length s) CHR ''0'' @ s)
     else (let s = hex_lower (nat n) in replicate (8 - length s) CHR ''0'' @ s))"

fun dec_digits :: "nat \<Rightarrow> string" where
  "dec_digits n =
    (if n < 10 then [''0123456789'' ! n]
     else dec_digits (n div 10) @ [''0123456789'' ! (n mod 10)])"

definition str_int :: "int \<Rightarrow> string" where
  "str_int n = (if n < 0 then CHR ''-'' # dec_digits (nat (- n)) else dec_digits (nat n))"

definition bytes_hex :: "bytes \<Rightarrow> string" where
  "bytes_hex bs =
    concat (map (\<lambda>b. [hex_digit_lower (unat b div 16), hex_digit_lower (unat b mod 16)]) bs)"

text \<open>
  \<open>bytes.decode('utf-8', errors='ignore')\<close>, as CPython's decoder does it.  A
  well-formed sequence gives its code point.  An ill-formed sequence is dropped up to,
  and not including, the byte that makes it ill-formed, and decoding resumes there; a
  sequence cut short by the end of the input is dropped whole.  Overlong forms
  (\<open>C0\<close>, \<open>C1\<close>, \<open>E0 80..9F\<close>, \<open>F0 80..8F\<close>), surrogates (\<open>ED A0..BF\<close>) and code
  points above \<open>10FFFF\<close> are ill-formed.
\<close>

definition is_continuation_byte :: "byte \<Rightarrow> bool" where
  "is_continuation_byte b \<longleftrightarrow> 0x80 \<le> b \<and> b < 0xC0"

fun utf8_decode_ignore :: "bytes \<Rightarrow> pystr" where
  "utf8_decode_ignore [] = []"
| "utf8_decode_ignore (b # bs) =
    (if b < 0x80 then unat b # utf8_decode_ignore bs
     else if b < 0xC2 then utf8_decode_ignore bs
     else if b < 0xE0 then
       (case bs of
          [] \<Rightarrow> []
        | c # cs \<Rightarrow>
            if is_continuation_byte c
            then ((unat b - 0xC0) * 64 + (unat c - 0x80)) # utf8_decode_ignore cs
            else utf8_decode_ignore bs)
     else if b < 0xF0 then
       (case bs of
          [] \<Rightarrow> []
        | c # cs \<Rightarrow>
            if \<not> is_continuation_byte c \<or> (b = 0xE0 \<and> c < 0xA0) \<or> (b = 0xED \<and> c \<ge> 0xA0)
            then utf8_decode_ignore bs
            else (case cs of
                    [] \<Rightarrow> []
                  | d # ds \<Rightarrow>
                      if is_continuation_byte d
                      then ((unat b - 0xE0) * 4096 + (unat c - 0x80) * 64 + (unat d - 0x80))
                             # utf8_decode_ignore ds
                      else utf8_decode_ignore cs))
     else if b < 0xF5 then
       (case bs of
          [] \<Rightarrow> []
        | c # cs \<Rightarrow>
            if \<not> is_continuation_byte c \<or> (b = 0xF0 \<and> c < 0x90) \<or> (b = 0xF4 \<and> c \<ge> 0x90)
            then utf8_decode_ignore bs
            else (case cs of
                    [] \<Rightarrow> []
                  | d # ds \<Rightarrow>
                      if \<not> is_continuation_byte d then utf8_decode_ignore cs
                      else (case ds of
                              [] \<Rightarrow> []
                            | e # es \<Rightarrow>
                                if is_continuation_byte e
                                then ((unat b - 0xF0) * 262144 + (unat c - 0x80) * 4096
                                       + (unat d - 0x80) * 64 + (unat e - 0x80))
                                       # utf8_decode_ignore es
                                else utf8_decode_ignore ds)))
     else utf8_decode_ignore bs)"

subsection \<open>The decoder\<close>

record param =
  par_pid :: int
  par_name :: string
  par_length :: int
  par_value :: bytes
  par_offset :: int
  par_decoded :: "pystr option"

text \<open>The \<open>try\<close> block of a topic or type name: whatever is raised inside gives the
  marker.\<close>

definition decode_string :: "bytes \<Rightarrow> pystr" where
  "decode_string param_value =
    (case unpack_I_le (py_slice_to param_value 4) of
       Inl e \<Rightarrow> ascii ''<decode error>''
     | Inr str_len \<Rightarrow> utf8_decode_ignore (py_slice param_value 4 (4 + str_len - 1)))"

definition decode_param :: "int \<Rightarrow> bytes \<Rightarrow> error + pystr option" where
  "decode_param pid param_value =
    (if pid = 0x0003 then Inr (Some (decode_string param_value))
     else if pid = 0x0004 then Inr (Some (decode_string param_value))
     else if pid = 0x005A then
       (if length param_value \<ge> 16
        then Inr (Some (ascii (bytes_hex (py_slice_to param_value 16)))) else Inr None)
     else if pid = 0x001A then
       (if length param_value \<ge> 12
        then (case unpack_I_le (py_slice param_value 0 4) of
                Inl e \<Rightarrow> Inl e
              | Inr kind \<Rightarrow>
                  Inr (Some (ascii (if kind = 1 then ''RELIABLE'' else ''BEST_EFFORT''))))
        else Inr None)
     else if pid = 0x001D then
       (if length param_value \<ge> 4
        then (case unpack_I_le (py_slice param_value 0 4) of
                Inl e \<Rightarrow> Inl e
              | Inr kind \<Rightarrow>
                  Inr (Some (ascii
                    (case map_of [(0, ''VOLATILE''), (1, ''TRANSIENT_LOCAL''),
                                  (2, ''TRANSIENT''), (3, ''PERSISTENT'')] kind of
                       Some v \<Rightarrow> v
                     | None \<Rightarrow> ''UNKNOWN('' @ str_int kind @ '')''))))
        else Inr None)
     else Inr None)"

text \<open>One turn of the loop of \<open>parse_cdr_parameter_list\<close> after the sentinel test: the
  record that is appended.\<close>

definition read_param :: "bytes \<Rightarrow> int \<Rightarrow> int \<Rightarrow> int \<Rightarrow> error + param" where
  "read_param data offset pid len =
    (let param_value = (if offset + 4 + len \<le> int (length data)
                        then py_slice data (offset + 4) (offset + 4 + len) else [])
     in case decode_param pid param_value of
          Inl e \<Rightarrow> Inl e
        | Inr decoded \<Rightarrow>
            Inr \<lparr>par_pid = pid,
                 par_name = (case map_of PID_MAP pid of
                                 Some name \<Rightarrow> name
                               | None \<Rightarrow> ''UNKNOWN_0x'' @ format_04X pid),
                 par_length = len, par_value = param_value, par_offset = offset,
                 par_decoded = decoded\<rparr>)"

function parse_cdr_loop :: "bytes \<Rightarrow> int \<Rightarrow> param list \<Rightarrow> error + param list" where
  "parse_cdr_loop data offset params =
    (if offset + 4 \<le> int (length data) then
       (case unpack_H_le (py_slice data offset (offset + 2)) of Inl e \<Rightarrow> Inl e
        | Inr pid \<Rightarrow>
        case unpack_H_le (py_slice data (offset + 2) (offset + 4)) of Inl e \<Rightarrow> Inl e
        | Inr len \<Rightarrow>
          if pid = 0x0001 then Inr params
          else (case read_param data offset pid len of Inl e \<Rightarrow> Inl e
                | Inr p \<Rightarrow>
                    parse_cdr_loop data (offset + 4 + ((len + 3) AND NOT 3)) (params @ [p])))
     else Inr params)"
  by pat_completeness auto
termination
proof (relation "measure (\<lambda>(data, offset, params). nat (int (length data) - offset))")
  show "wf (measure (\<lambda>(data, offset, params). nat (int (length data) - offset)))"
    by simp
next
  fix data :: bytes and offset :: int and params :: "param list" and len :: int and p :: param
  assume inside: "offset + 4 \<le> int (length data)"
    and len: "unpack_H_le (py_slice data (offset + 2) (offset + 4)) = Inr len"
  define pad where "pad = (len + 3) AND NOT 3"
  have "0 \<le> le_value bs" for bs
    unfolding le_value_def by (induction bs) simp_all
  then have "0 \<le> len"
    using len by (auto simp: unpack_le_def split: if_splits)
  then have "0 \<le> pad"
    unfolding pad_def by simp
  with inside
  have "nat (int (length data) - (offset + 4 + pad)) < nat (int (length data) - offset)"
    by simp
  then show "((data, offset + 4 + ((len + 3) AND NOT 3), params @ [p]), (data, offset, params))
      \<in> measure (\<lambda>(data, offset, params). nat (int (length data) - offset))"
    unfolding pad_def by simp
qed

declare parse_cdr_loop.simps [simp del]

definition parse_cdr_parameter_list :: "bytes \<Rightarrow> error + param list" where
  "parse_cdr_parameter_list data =
    (if length data < 4 then Inr []
     else (case unpack_H_le (py_slice data 0 2) of Inl e \<Rightarrow> Inl e
           | Inr encapsulation \<Rightarrow> parse_cdr_loop data 4 []))"

section \<open>Validation\<close>

text \<open>
  \<open>submsg.get('entity_type')\<close> and \<open>submsg.get('sequence_number', 0)\<close> read the
  optional DATA fields.  The result is the pair of the issues and the warnings.
\<close>

definition missing_issues :: "(int \<times> string) list \<Rightarrow> param list \<Rightarrow> string list" where
  "missing_issues required params =
    (let found_pids = set (map par_pid params)
     in concat (map (\<lambda>(req_pid, req_name).
          if req_pid \<notin> found_pids
          then [''Missing required PID: '' @ req_name @ '' (0x'' @ format_04X req_pid @ '')'']
          else []) required))"

definition invalid_name :: "param \<Rightarrow> bool" where
  "invalid_name p =
    (let decoded = (case par_decoded p of Some d \<Rightarrow> d | None \<Rightarrow> [])
     in decoded = [] \<or> decoded = ascii ''<decode error>'')"

fun name_issues :: "param list \<Rightarrow> string list" where
  "name_issues [] = []"
| "name_issues (p # ps) =
    (if par_pid p = 0x0003 \<and> invalid_name p then [''Empty or invalid TOPIC_NAME''] else [])
    @ (if par_pid p = 0x0004 \<and> invalid_name p then [''Empty or invalid TYPE_NAME''] else [])
    @ name_issues ps"

definition validate_sedp_packet :: "submsg \<Rightarrow> param list \<Rightarrow> string list \<times> string list" where
  "validate_sedp_packet submsg params =
    (let entity_type = map_option entity_type (submsg_fields submsg);
         checks = (\<lambda>required.
           (let issues = missing_issues required params @ name_issues params;
                seq_num = (case submsg_fields submsg of
                             Some d \<Rightarrow> sequence_number d | None \<Rightarrow> 0);
                warnings = (if seq_num = 0
                   then [''Sequence number is 0 (should start from 1 for Reliable QoS)'']
                   else [])
            in (issues, warnings)))
     in if entity_type = Some ''SEDP_PUB'' then checks REQUIRED_SEDP_WRITER_PIDS
        else if entity_type = Some ''SEDP_SUB'' then checks REQUIRED_SEDP_READER_PIDS
        else ([], []))"

section \<open>Capture files\<close>

text \<open>
  The file is the list of the bytes that remain to be read; \<open>f.read(n)\<close> gives at most
  \<open>n\<close> of them and leaves the rest.  A packet keeps the two integer parts of its
  timestamp, which the source adds as a float.  \<open>read_pcap\<close> gives the error it raises,
  or the packets and the lines it printed.
\<close>

datatype endian = Little | Big

record packet =
  pkt_num :: int
  pkt_ts_sec :: int
  pkt_ts_usec :: int
  pkt_data :: bytes
  pkt_size :: int

definition f_read :: "bytes \<Rightarrow> int \<Rightarrow> bytes \<times> bytes" where
  "f_read f n = (take (nat n) f, drop (nat n) f)"

definition unpack_I :: "endian \<Rightarrow> bytes \<Rightarrow> int" where
  "unpack_I endian bs = (case endian of Little \<Rightarrow> le_value bs | Big \<Rightarrow> be_value bs)"

definition unpack_IIII :: "endian \<Rightarrow> bytes \<Rightarrow> error + (int \<times> int \<times> int \<times> int)" where
  "unpack_IIII endian bs =
    (if length bs = 16
     then Inr (unpack_I endian (take 4 bs), unpack_I endian (take 4 (drop 4 bs)),
               unpack_I endian (take 4 (drop 8 bs)), unpack_I endian (take 4 (drop 12 bs)))
     else Inl StructError)"

function read_packets ::
  "endian \<Rightarrow> bytes \<Rightarrow> int \<Rightarrow> packet list \<Rightarrow> error + (packet list \<times> string list)" where
  "read_packets endian f packet_num packets =
    (let pkt_header = fst (f_read f 16); f1 = snd (f_read f 16)
     in if length pkt_header < 16 then Inr (packets, [])
        else (case unpack_IIII endian pkt_header of Inl e \<Rightarrow> Inl e
              | Inr (ts_sec, ts_usec, incl_len, orig_len) \<Rightarrow>
                  let data = fst (f_read f1 incl_len); f2 = snd (f_read f1 incl_len)
                  in if int (length data) < incl_len
                     then Inr (packets,
                            [''Warning: Packet '' @ str_int (packet_num + 1) @ '' truncated''])
                     else read_packets endian f2 (packet_num + 1)
                            (packets @ [\<lparr>pkt_num = packet_num + 1, pkt_ts_sec = ts_sec,
                               pkt_ts_usec = ts_usec, pkt_data = data, pkt_size = incl_len\<rparr>])))"
  by pat_completeness auto
termination
  by (relation "measure (\<lambda>(endian, f, packet_num, packets). length f)")
    (auto simp: f_read_def)

declare read_packets.simps [simp del]

definition read_pcap :: "bytes \<Rightarrow> error + (packet list \<times> string list)" where
  "read_pcap file =
    (let header = fst (f_read file 24); f = snd (f_read file 24)
     in if length header < 24 then Inl (ValueError ''Invalid pcap file: header too short'')
        else (case unpack_I_le (py_slice_to header 4) of Inl e \<Rightarrow> Inl e
              | Inr magic \<Rightarrow>
                  if magic = 0xa1b2c3d4 then read_packets Little f 0 []
                  else if magic = 0xd4c3b2a1 then read_packets Big f 0 []
                  else Inl (ValueError (''Invalid pcap magic: '' @ format_08x magic))))"

section \<open>Derived notions used in the statements\<close>

text \<open>A submessage record whose header lies in the buffer and whose body is the part of
  the declared range that the buffer holds.\<close>

definition submsg_in_buffer :: "bytes \<Rightarrow> submsg \<Rightarrow> bool" where
  "submsg_in_buffer data s \<longleftrightarrow>
     0 \<le> submsg_offset s \<and> submsg_offset s + 4 \<le> int (length data)
     \<and> 0 \<le> submsg_length s
     \<and> submsg_data s = take (nat (submsg_length s)) (drop (nat (submsg_offset s) + 4) data)"

text \<open>\<open>pad4\<close> rounds a length up to the next multiple of 4.\<close>

definition pad4 :: "int \<Rightarrow> int" where
  "pad4 n = 4 * ((n + 3) div 4)"

text \<open>The 16-bit little-endian value at a position of a buffer.\<close>

definition le16_at :: "bytes \<Rightarrow> int \<Rightarrow> int" where
  "le16_at data offset = uint (data ! nat offset) + 256 * uint (data ! (nat offset + 1))"

text \<open>A parameter whose declared length extends past the end of the buffer, and a parameter
  as the decoder emits it for the record at its offset.\<close>

definition overruns :: "bytes \<Rightarrow> param \<Rightarrow> bool" where
  "overruns data p \<longleftrightarrow> par_offset p + 4 + par_length p > int (length data)"

definition emitted_at :: "bytes \<Rightarrow> param \<Rightarrow> bool" where
  "emitted_at data p \<longleftrightarrow>
     0 \<le> par_offset p \<and> par_offset p + 4 \<le> int (length data)
     \<and> par_pid p = le16_at data (par_offset p) \<and> par_pid p \<noteq> 0x0001
     \<and> par_length p = le16_at data (par_offset p + 2)
     \<and> read_param data (par_offset p) (par_pid p) (par_length p) = Inr p"

text \<open>The cursor of the parameter-list loop moves from \<open>a\<close> to \<open>b\<close> over records that
  are not the sentinel.\<close>

inductive cursor_reaches :: "bytes \<Rightarrow> int \<Rightarrow> int \<Rightarrow> bool" for data :: bytes where
  here: "cursor_reaches data a a"
| skip: "a + 4 \<le> int (length data) \<Longrightarrow> le16_at data a \<noteq> 0x0001 \<Longrightarrow>
         cursor_reaches data (a + 4 + pad4 (le16_at data (a + 2))) b \<Longrightarrow>
         cursor_reaches data a b"

code_pred cursor_reaches .

text \<open>
  Notions for capture files: the magic number of a global header, read little-endian as
  the source does, and the byte order it selects; the captured length that a 16-byte
  record header declares; a complete record (a record header with exactly as many data
  bytes as it declares); the bytes of a sequence of records, and the packets that
  correspond to them, numbered from \<open>n + 1\<close>.
\<close>

definition magic_of :: "bytes \<Rightarrow> int" where
  "magic_of file = uint (file ! 0) + 256 * uint (file ! 1) + 65536 * uint (file ! 2)
     + 16777216 * uint (file ! 3)"

definition endian_of :: "bytes \<Rightarrow> endian" where
  "endian_of file = (if magic_of file = 0xa1b2c3d4 then Little else Big)"

definition incl_len_of :: "endian \<Rightarrow> bytes \<Rightarrow> int" where
  "incl_len_of e h = unpack_I e (take 4 (drop 8 h))"

definition complete_record :: "endian \<Rightarrow> bytes \<times> bytes \<Rightarrow> bool" where
  "complete_record e r \<longleftrightarrow> length (fst r) = 16 \<and> incl_len_of e (fst r) = int (length (snd r))"

definition record_bytes :: "(bytes \<times> bytes) list \<Rightarrow> bytes" where
  "record_bytes recs = concat (map (\<lambda>r. fst r @ snd r) recs)"

fun packets_of :: "endian \<Rightarrow> int \<Rightarrow> (bytes \<times> bytes) list \<Rightarrow> packet list" where
  "packets_of e n [] = []"
| "packets_of e n (r # rs) =
     \<lparr>pkt_num = n + 1, pkt_ts_sec = unpack_I e (take 4 (fst r)),
      pkt_ts_usec = unpack_I e (take 4 (drop 4 (fst r))), pkt_data = snd r,
      pkt_size = int (length (snd r))\<rparr> # packets_of e (n + 1) rs"

section \<open>Properties\<close>

subsection \<open>Python helpers on non-negative positions\<close>

lemma le_value_nonneg: "0 \<le> le_value bs"
  unfolding le_value_def by (induction bs) simp_all

lemma py_index_nonneg:
  "0 \<le> i \<Longrightarrow> i < int (length xs) \<Longrightarrow> py_index xs i = Inr (xs ! nat i)"
  by (simp add: py_index_def Let_def)

lemma py_slice_nonneg:
  "0 \<le> i \<Longrightarrow> i \<le> j \<Longrightarrow> py_slice xs i j = take (nat j - nat i) (drop (nat i) xs)"
  by (auto simp: py_slice_def py_clamp_def Let_def min_def)

lemma py_slice_from_nonneg:
  "0 \<le> i \<Longrightarrow> py_slice_from xs i = drop (nat i) xs"
  by (auto simp: py_slice_from_def py_clamp_def min_def)

lemma py_slice_to_nonneg:
  "0 \<le> j \<Longrightarrow> py_slice_to xs j = take (nat j) xs"
  by (auto simp: py_slice_to_def py_clamp_def min_def)

lemma take_drop_map_nth:
  "n + k \<le> length xs \<Longrightarrow> take k (drop n xs) = map (\<lambda>i. xs ! (n + i)) [0..<k]"
  by (simp add: list_eq_iff_nth_eq)

lemma take_2_drop:
  "n + 2 \<le> length xs \<Longrightarrow> take 2 (drop n xs) = [xs ! n, xs ! (n + 1)]"
  by (rule nth_equalityI) (auto simp: nth_Cons' less_Suc_eq eval_nat_numeral)

lemma take_4_drop:
  "n + 4 \<le> length xs \<Longrightarrow>
     take 4 (drop n xs) = [xs ! n, xs ! (n + 1), xs ! (n + 2), xs ! (n + 3)]"
  by (rule nth_equalityI) (auto simp: nth_Cons' less_Suc_eq eval_nat_numeral)

lemma take_8_drop:
  "n + 8 \<le> length xs \<Longrightarrow>
     take 8 (drop n xs) = [xs ! n, xs ! (n + 1), xs ! (n + 2), xs ! (n + 3),
       xs ! (n + 4), xs ! (n + 5), xs ! (n + 6), xs ! (n + 7)]"
  by (rule nth_equalityI) (auto simp: nth_Cons' less_Suc_eq eval_nat_numeral)


subsection \<open>Entity classification\<close>

lemma classify_entity_id_table:
  "classify_entity_id 0x000000C0 = ''BUILTIN''"
  "classify_entity_id 0x000100C2 = ''SPDP''"
  "classify_entity_id 0x000001C1 = ''SPDP''"
  "classify_entity_id 0x000003C2 = ''SEDP_PUB''"
  "classify_entity_id 0x000004C2 = ''SEDP_PUB''"
  "classify_entity_id 0x000003C7 = ''SEDP_SUB''"
  "classify_entity_id 0x000004C7 = ''SEDP_SUB''"
  "classify_entity_id 0x000200C2 = ''BUILTIN''"
  "classify_entity_id 0x000201C2 = ''BUILTIN''"
  by (simp_all add: classify_entity_id_def ENTITY_IDS_def)

lemma classify_entity_id_unknown:
  "entity_id \<notin> fst ` set ENTITY_IDS \<Longrightarrow> classify_entity_id entity_id = ''USER''"
  by (simp add: classify_entity_id_def map_of_eq_None_iff [THEN iffD2])

lemma classify_entity_id_range:
  "classify_entity_id entity_id \<in> {''SPDP'', ''SEDP_PUB'', ''SEDP_SUB'', ''BUILTIN'', ''USER''}"
proof (cases "entity_id \<in> fst ` set ENTITY_IDS")
  case True
  then have "entity_id \<in> {0x000000C0, 0x000100C2, 0x000001C1, 0x000003C2, 0x000004C2,
      0x000003C7, 0x000004C7, 0x000200C2, 0x000201C2}"
    by (simp add: ENTITY_IDS_def)
  then show ?thesis
    using classify_entity_id_table by auto
next
  case False
  then show ?thesis by (simp add: classify_entity_id_unknown)
qed

text \<open>
  Claim C7.  The entity classifier is defined on every entity id and answers one of the
  five roles SPDP, SEDP_PUB, SEDP_SUB, BUILTIN, USER; it sends \<open>0x000003C2\<close> to
  SEDP_PUB, \<open>0x000001C1\<close> to SPDP, and every id that is not a key of the static
  entity-id table, \<open>0xDEADBEEF\<close> among them, to USER.
\<close>

theorem C7_classify_entity_id:
  "classify_entity_id entity_id \<in> {''SPDP'', ''SEDP_PUB'', ''SEDP_SUB'', ''BUILTIN'', ''USER''}
   \<and> classify_entity_id 0x000003C2 = ''SEDP_PUB''
   \<and> classify_entity_id 0x000001C1 = ''SPDP''
   \<and> (entity_id \<notin> fst ` set ENTITY_IDS \<longrightarrow> classify_entity_id entity_id = ''USER'')
   \<and> classify_entity_id 0xDEADBEEF = ''USER''"
proof -
  have "(0xDEADBEEF :: int) \<notin> fst ` set ENTITY_IDS"
    by (simp add: ENTITY_IDS_def)
  then have "classify_entity_id 0xDEADBEEF = ''USER''"
    by (rule classify_entity_id_unknown)
  then show ?thesis
    using classify_entity_id_range [of entity_id] classify_entity_id_table(3,4)
      classify_entity_id_unknown [of entity_id]
    by blast
qed

theorem C7_classify_entity_id_witness:
  "(0x12345678 :: int) \<notin> fst ` set ENTITY_IDS \<and> classify_entity_id 0x12345678 = ''USER''"
proof -
  have h: "(0x12345678 :: int) \<notin> fst ` set ENTITY_IDS"
    by (simp add: ENTITY_IDS_def)
  with C7_classify_entity_id [of "0x12345678"] show ?thesis by blast
qed

subsection \<open>Submessage walker\<close>

lemma parse_data_fields_ok:
  assumes "20 \<le> length b"
  shows "parse_data_fields b = Inr
    \<lparr>extra_flags = uint (b ! 0) + 256 * uint (b ! 1),
     octets_to_inline_qos = uint (b ! 2) + 256 * uint (b ! 3),
     reader_id = 16777216 * uint (b ! 4) + 65536 * uint (b ! 5) + 256 * uint (b ! 6) + uint (b ! 7),
     writer_id = 16777216 * uint (b ! 8) + 65536 * uint (b ! 9) + 256 * uint (b ! 10) + uint (b ! 11),
     sequence_number = uint (b ! 12) + 256 * uint (b ! 13) + 256 ^ 2 * uint (b ! 14)
        + 256 ^ 3 * uint (b ! 15) + 256 ^ 4 * uint (b ! 16) + 256 ^ 5 * uint (b ! 17)
        + 256 ^ 6 * uint (b ! 18) + 256 ^ 7 * uint (b ! 19),
     entity_type = classify_entity_id
        (16777216 * uint (b ! 8) + 65536 * uint (b ! 9) + 256 * uint (b ! 10) + uint (b ! 11)),
     payload = (if uint (b ! 2) + 256 * uint (b ! 3) \<ge> 20
                then drop (nat (uint (b ! 2) + 256 * uint (b ! 3))) b else drop 20 b)\<rparr>"
proof -
  have s1: "py_slice b 0 2 = [b ! 0, b ! 1]"
    using assms by (simp add: py_slice_nonneg take_2_drop [of 0, simplified])
  have s2: "py_slice b 2 4 = [b ! 2, b ! 3]"
    using assms by (simp add: py_slice_nonneg take_2_drop)
  have s3: "py_slice b 4 8 = [b ! 4, b ! 5, b ! 6, b ! 7]"
    using assms by (simp add: py_slice_nonneg take_4_drop)
  have s4: "py_slice b 8 12 = [b ! 8, b ! 9, b ! 10, b ! 11]"
    using assms by (simp add: py_slice_nonneg take_4_drop)
  have s5: "py_slice b 12 20 = [b ! 12, b ! 13, b ! 14, b ! 15, b ! 16, b ! 17, b ! 18, b ! 19]"
    using assms by (simp add: py_slice_nonneg take_8_drop)
  have nn: "0 \<le> uint (b ! 2) + 256 * uint (b ! 3)" by simp
  show ?thesis
    unfolding parse_data_fields_def s1 s2 s3 s4 s5
    by (simp add: unpack_le_def unpack_be_def le_value_def be_value_def py_slice_from_nonneg)
qed

lemma read_submsg_props:
  assumes "read_submsg data offset = Inr s"
  shows "submsg_offset s = offset" and "0 \<le> submsg_length s"
    and "submsg_data s = (if submsg_length s > 0
           then py_slice data (offset + 4) (offset + 4 + submsg_length s) else [])"
  using assms
  by (auto simp: read_submsg_def unpack_le_def Let_def le_value_nonneg
      split: sum.splits if_splits)

lemma read_submsg_total:
  assumes "0 \<le> offset" and "offset + 4 \<le> int (length data)"
  shows "\<exists>s. read_submsg data offset = Inr s"
proof -
  have i0: "py_index data offset = Inr (data ! nat offset)"
    using assms by (simp add: py_index_nonneg)
  have i1: "py_index data (offset + 1) = Inr (data ! nat (offset + 1))"
    using assms by (simp add: py_index_nonneg)
  have "length (py_slice data (offset + 2) (offset + 4)) = 2"
    using assms by (simp add: py_slice_nonneg)
  then obtain n where u: "unpack_H_le (py_slice data (offset + 2) (offset + 4)) = Inr n"
    by (simp add: unpack_le_def)
  define body where "body = (if n > 0 then py_slice data (offset + 4) (offset + 4 + n) else [])"
  show ?thesis
  proof (cases "uint (data ! nat offset) = RTPS_SUBMSG_DATA \<and> int (length body) \<ge> 20")
    case True
    then have "20 \<le> length body" by simp
    then obtain d where "parse_data_fields body = Inr d"
      using parse_data_fields_ok [of body] by blast
    with True show ?thesis
      by (simp add: read_submsg_def i0 i1 u Let_def body_def [symmetric])
  next
    case False
    then show ?thesis
      by (auto simp: read_submsg_def i0 i1 u Let_def body_def [symmetric])
  qed
qed

lemma read_submsg_in_buffer:
  assumes "0 \<le> offset" and "offset + 4 \<le> int (length data)"
    and "read_submsg data offset = Inr s"
  shows "submsg_in_buffer data s"
proof -
  note p = read_submsg_props [OF assms(3)]
  have "py_slice data (offset + 4) (offset + 4 + submsg_length s)
      = take (nat (submsg_length s)) (drop (nat offset + 4) data)"
    using assms(1) p(2) by (simp add: py_slice_nonneg nat_add_distrib)
  then show ?thesis
    using assms(1,2) p by (simp add: submsg_in_buffer_def)
qed

lemma parse_submessages_loop_in_buffer:
  "0 \<le> offset \<Longrightarrow> \<forall>s\<in>set acc. submsg_in_buffer data s \<Longrightarrow>
   \<exists>subs. parse_submessages_loop data offset acc = Inr subs
     \<and> (\<forall>s\<in>set subs. submsg_in_buffer data s)"
proof (induction data offset acc rule: parse_submessages_loop.induct)
  case (1 data offset acc)
  show ?case
  proof (cases "offset < int (length data) \<and> \<not> offset + 4 > int (length data)")
    case False
    then show ?thesis
      using "1.prems" by (auto simp: parse_submessages_loop.simps [of data offset acc])
  next
    case True
    then obtain s where s: "read_submsg data offset = Inr s"
      using read_submsg_total [of offset data] "1.prems"(1) by auto
    have inb: "submsg_in_buffer data s"
      using read_submsg_in_buffer [OF "1.prems"(1) _ s] True by simp
    have acc': "\<forall>t\<in>set (acc @ [s]). submsg_in_buffer data t"
      using "1.prems"(2) inb by simp
    show ?thesis
    proof (cases "submsg_length s = 0")
      case z: True
      then show ?thesis
        using True s acc' by (simp add: parse_submessages_loop.simps [of data offset acc])
    next
      case nz: False
      have "0 \<le> offset + 4 + submsg_length s"
        using "1.prems"(1) read_submsg_props(2) [OF s] by simp
      from "1.IH" [OF _ _ s nz this acc'] True
      show ?thesis
        using s nz by (simp add: parse_submessages_loop.simps [of data offset acc])
    qed
  qed
qed

lemma parse_submessages_loop_from_read:
  "parse_submessages_loop data offset acc = Inr subs \<Longrightarrow> s \<in> set subs \<Longrightarrow>
   s \<in> set acc \<or> (\<exists>pos. read_submsg data pos = Inr s)"
proof (induction data offset acc rule: parse_submessages_loop.induct)
  case (1 data offset acc)
  show ?case
  proof (cases "offset < int (length data) \<and> \<not> offset + 4 > int (length data)")
    case False
    then show ?thesis
      using "1.prems"
      by (auto simp: parse_submessages_loop.simps [of data offset acc] split: if_splits)
  next
    case True
    show ?thesis
    proof (cases "read_submsg data offset")
      case (Inl e)
      then show ?thesis
        using True "1.prems" by (simp add: parse_submessages_loop.simps [of data offset acc])
    next
      case (Inr t)
      show ?thesis
      proof (cases "submsg_length t = 0")
        case z: True
        then show ?thesis
          using True Inr "1.prems"
          by (auto simp: parse_submessages_loop.simps [of data offset acc])
      next
        case nz: False
        have "parse_submessages_loop data (offset + 4 + submsg_length t) (acc @ [t]) = Inr subs"
          using True Inr nz "1.prems"(1)
          by (simp add: parse_submessages_loop.simps [of data offset acc])
        from "1.IH" [OF _ _ Inr nz this "1.prems"(2)] True
        show ?thesis using Inr by auto
      qed
    qed
  qed
qed

lemma read_submsg_data_fields:
  assumes "read_submsg data pos = Inr s" and "submsg_id s = RTPS_SUBMSG_DATA"
    and "20 \<le> length (submsg_data s)"
  shows "\<exists>d. submsg_fields s = Some d \<and> parse_data_fields (submsg_data s) = Inr d"
  using assms
  by (auto simp: read_submsg_def Let_def split: sum.splits if_splits)

text \<open>
  Claim C1, as stated, fails: the walker does not compare the declared length with the
  bytes that remain.  On the four bytes \<open>15 00 64 00\<close> it yields a submessage at offset 0
  with declared length 100, and \<open>0 + 4 + 100\<close> exceeds the buffer length 4.
\<close>

theorem C1_counterexample:
  "parse_submessages [0x15, 0x00, 0x64, 0x00] 0
     = Inr [\<lparr>submsg_id = 0x15, submsg_flags = 0, submsg_length = 100, submsg_data = [],
             submsg_offset = 0, submsg_fields = None\<rparr>]
   \<and> \<not> (0 + 4 + (100 :: int) \<le> int (length [0x15, 0x00, 0x64, 0x00 :: byte]))"
  by (simp add: parse_submessages_def parse_submessages_loop.simps read_submsg_def
      py_index_def py_slice_def py_clamp_def unpack_le_def le_value_def Let_def
      RTPS_SUBMSG_DATA_def)

text \<open>
  Claim C1, amended.  For every buffer and every non-negative starting offset the walker
  returns without raising (no read is out of range), and every submessage it yields has
  its 4-byte header inside the buffer: \<open>0 \<le> origin_offset\<close> and
  \<open>origin_offset + 4 \<le> len(buffer)\<close>.  Its declared length is not checked against the
  buffer; its raw body is the part of the declared range that the buffer holds, so
  \<open>origin_offset + 4 + len(body) \<le> len(buffer)\<close>.
\<close>

theorem C1_parse_submessages_in_buffer:
  assumes "0 \<le> offset"
  shows "\<exists>subs. parse_submessages data offset = Inr subs
    \<and> (\<forall>s\<in>set subs.
          0 \<le> submsg_offset s \<and> submsg_offset s + 4 \<le> int (length data)
          \<and> 0 \<le> submsg_length s
          \<and> submsg_data s = take (nat (submsg_length s)) (drop (nat (submsg_offset s) + 4) data)
          \<and> submsg_offset s + 4 + int (length (submsg_data s)) \<le> int (length data))"
proof -
  obtain subs where r: "parse_submessages data offset = Inr subs"
    and inb: "\<forall>s\<in>set subs. submsg_in_buffer data s"
    using parse_submessages_loop_in_buffer [of offset "[]" data] assms
    by (auto simp: parse_submessages_def)
  have "submsg_offset s + 4 + int (length (submsg_data s)) \<le> int (length data)"
    if "submsg_in_buffer data s" for s
    using that by (auto simp: submsg_in_buffer_def)
  with r inb show ?thesis
    by (auto simp: submsg_in_buffer_def)
qed

theorem C1_parse_submessages_in_buffer_witness:
  "(0 :: int) \<le> 0
   \<and> parse_submessages [0x07, 0x01, 0x02, 0x00, 0xAA, 0xBB, 0x15, 0x00, 0x64, 0x00, 0xCC] 0
     = Inr [\<lparr>submsg_id = 7, submsg_flags = 1, submsg_length = 2, submsg_data = [0xAA, 0xBB],
             submsg_offset = 0, submsg_fields = None\<rparr>,
            \<lparr>submsg_id = 0x15, submsg_flags = 0, submsg_length = 100, submsg_data = [0xCC],
             submsg_offset = 6, submsg_fields = None\<rparr>]
   \<and> (\<exists>subs. parse_submessages
          [0x07, 0x01, 0x02, 0x00, 0xAA, 0xBB, 0x15, 0x00, 0x64, 0x00, 0xCC] 0 = Inr subs
        \<and> (\<forall>s\<in>set subs. submsg_offset s + 4 + int (length (submsg_data s)) \<le> 11))"
proof -
  have e: "parse_submessages [0x07, 0x01, 0x02, 0x00, 0xAA, 0xBB, 0x15, 0x00, 0x64, 0x00, 0xCC] 0
     = Inr [\<lparr>submsg_id = 7, submsg_flags = 1, submsg_length = 2, submsg_data = [0xAA, 0xBB],
             submsg_offset = 0, submsg_fields = None\<rparr>,
            \<lparr>submsg_id = 0x15, submsg_flags = 0, submsg_length = 100, submsg_data = [0xCC],
             submsg_offset = 6, submsg_fields = None\<rparr>]"
    by (simp add: parse_submessages_def parse_submessages_loop.simps read_submsg_def
      py_index_def py_slice_def py_clamp_def unpack_le_def le_value_def Let_def
      RTPS_SUBMSG_DATA_def)
  have h: "(0 :: int) \<le> 0" by simp
  from C1_parse_submessages_in_buffer [OF h,
      of "[0x07, 0x01, 0x02, 0x00, 0xAA, 0xBB, 0x15, 0x00, 0x64, 0x00, 0xCC]"]
  have "\<exists>subs. parse_submessages
          [0x07, 0x01, 0x02, 0x00, 0xAA, 0xBB, 0x15, 0x00, 0x64, 0x00, 0xCC] 0 = Inr subs
        \<and> (\<forall>s\<in>set subs. submsg_offset s + 4 + int (length (submsg_data s)) \<le> 11)"
    by auto
  with e h show ?thesis by blast
qed

text \<open>
  Claim C6.  Every submessage yielded by the walker whose kind id is the DATA kind and
  whose body has at least 20 bytes carries the DATA fields: extra flags from body bytes
  0-1 (16-bit little-endian), octets-to-inline-QoS from bytes 2-3 (16-bit little-endian),
  reader entity id from bytes 4-7 and writer entity id from bytes 8-11 (32-bit
  big-endian), the sequence number from bytes 12-19 as one 64-bit little-endian integer,
  and the payload, which is the body from the octets-to-inline-QoS offset on when that
  offset is at least 20 and from offset 20 on otherwise.
\<close>

theorem C6_data_fields:
  assumes "parse_submessages data offset = Inr subs" and "s \<in> set subs"
    and "submsg_id s = RTPS_SUBMSG_DATA" and "20 \<le> length (submsg_data s)"
  shows "\<exists>d. submsg_fields s = Some d
    \<and> extra_flags d = uint (submsg_data s ! 0) + 256 * uint (submsg_data s ! 1)
    \<and> octets_to_inline_qos d = uint (submsg_data s ! 2) + 256 * uint (submsg_data s ! 3)
    \<and> reader_id d = 16777216 * uint (submsg_data s ! 4) + 65536 * uint (submsg_data s ! 5)
        + 256 * uint (submsg_data s ! 6) + uint (submsg_data s ! 7)
    \<and> writer_id d = 16777216 * uint (submsg_data s ! 8) + 65536 * uint (submsg_data s ! 9)
        + 256 * uint (submsg_data s ! 10) + uint (submsg_data s ! 11)
    \<and> sequence_number d = uint (submsg_data s ! 12) + 256 * uint (submsg_data s ! 13)
        + 256 ^ 2 * uint (submsg_data s ! 14) + 256 ^ 3 * uint (submsg_data s ! 15)
        + 256 ^ 4 * uint (submsg_data s ! 16) + 256 ^ 5 * uint (submsg_data s ! 17)
        + 256 ^ 6 * uint (submsg_data s ! 18) + 256 ^ 7 * uint (submsg_data s ! 19)
    \<and> payload d = (if octets_to_inline_qos d \<ge> 20
                    then drop (nat (octets_to_inline_qos d)) (submsg_data s)
                    else drop 20 (submsg_data s))"
proof -
  obtain pos where "read_submsg data pos = Inr s"
    using parse_submessages_loop_from_read [of data offset "[]" subs s] assms(1,2)
    by (auto simp: parse_submessages_def)
  then obtain d where d: "submsg_fields s = Some d"
    and p: "parse_data_fields (submsg_data s) = Inr d"
    using read_submsg_data_fields assms(3,4) by blast
  from p show ?thesis
    unfolding parse_data_fields_ok [OF assms(4)] d by auto
qed

theorem C6_data_fields_witness:
  "parse_submessages
      [0x15, 0x00, 0x18, 0x00,
       0x01, 0x02, 0x10, 0x00, 0x00, 0x00, 0x03, 0xC7, 0x00, 0x00, 0x03, 0xC2,
       0x01, 0x00, 0x00, 0x00, 0x00, 0x00, 0x00, 0x00, 0x09, 0x09, 0x09, 0x09] 0
     = Inr [\<lparr>submsg_id = 0x15, submsg_flags = 0, submsg_length = 24,
             submsg_data = [0x01, 0x02, 0x10, 0x00, 0x00, 0x00, 0x03, 0xC7, 0x00, 0x00, 0x03,
               0xC2, 0x01, 0x00, 0x00, 0x00, 0x00, 0x00, 0x00, 0x00, 0x09, 0x09, 0x09, 0x09],
             submsg_offset = 0,
             submsg_fields = Some \<lparr>extra_flags = 0x0201, octets_to_inline_qos = 16,
               reader_id = 0x000003C7, writer_id = 0x000003C2, sequence_number = 1,
               entity_type = ''SEDP_PUB'', payload = [0x09, 0x09, 0x09, 0x09]\<rparr>\<rparr>]
   \<and> (\<exists>d. Some \<lparr>extra_flags = 0x0201, octets_to_inline_qos = 16,
               reader_id = 0x000003C7, writer_id = 0x000003C2, sequence_number = 1,
               entity_type = ''SEDP_PUB'', payload = [0x09 :: byte, 0x09, 0x09, 0x09]\<rparr> = Some d
          \<and> extra_flags d = 0x0201 \<and> octets_to_inline_qos d = 16
          \<and> reader_id d = 0x000003C7 \<and> writer_id d = 0x000003C2
          \<and> sequence_number d = 1 \<and> payload d = [0x09, 0x09, 0x09, 0x09])"
proof -
  let ?body = "[0x01, 0x02, 0x10, 0x00, 0x00, 0x00, 0x03, 0xC7, 0x00, 0x00, 0x03,
               0xC2, 0x01, 0x00, 0x00, 0x00, 0x00, 0x00, 0x00, 0x00, 0x09, 0x09, 0x09, 0x09 :: byte]"
  let ?d = "\<lparr>extra_flags = 0x0201, octets_to_inline_qos = 16,
               reader_id = 0x000003C7, writer_id = 0x000003C2, sequence_number = 1,
               entity_type = ''SEDP_PUB'', payload = [0x09 :: byte, 0x09, 0x09, 0x09]\<rparr>"
  let ?s = "\<lparr>submsg_id = 0x15, submsg_flags = 0, submsg_length = 24, submsg_data = ?body,
             submsg_offset = 0, submsg_fields = Some ?d\<rparr>"
  have e: "parse_submessages ([0x15, 0x00, 0x18, 0x00] @ ?body) 0 = Inr [?s]"
    by (simp add: parse_submessages_def parse_submessages_loop.simps read_submsg_def
      parse_data_fields_def py_index_def py_slice_def py_slice_from_def py_clamp_def
      unpack_le_def unpack_be_def le_value_def be_value_def Let_def RTPS_SUBMSG_DATA_def
      classify_entity_id_def ENTITY_IDS_def)
  have m: "?s \<in> set [?s]" by simp
  have k: "submsg_id ?s = RTPS_SUBMSG_DATA" by (simp add: RTPS_SUBMSG_DATA_def)
  have l: "20 \<le> length (submsg_data ?s)" by simp
  from C6_data_fields [OF e m k l] e show ?thesis by simp
qed

subsection \<open>CDR parameter lists\<close>

lemma and_not_mask_int: "(k :: int) AND NOT (mask n) = push_bit n (drop_bit n k)"
  by (rule bit_eqI) (auto simp: bit_simps)

lemma and_not_3: "(k :: int) AND NOT 3 = 4 * (k div 4)"
  using and_not_mask_int [of k 2]
  by (simp add: push_bit_eq_mult drop_bit_eq_div mask_numeral)

lemma pad4_eq: "(len + 3) AND NOT 3 = pad4 len"
  unfolding pad4_def by (rule and_not_3)

lemma pad4_eq_minus4: "(len + 3) AND - 4 = pad4 len"
  using pad4_eq [of len] by simp

lemma pad4_bounds: "len \<le> pad4 len" "pad4 len < len + 4" "pad4 len mod 4 = 0"
  unfolding pad4_def by presburger+

lemma unpack_H_le_at:
  assumes "0 \<le> offset" and "offset + 2 \<le> int (length data)"
  shows "unpack_H_le (py_slice data offset (offset + 2)) = Inr (le16_at data offset)"
proof -
  have "py_slice data offset (offset + 2) = take 2 (drop (nat offset) data)"
    using assms by (simp add: py_slice_nonneg nat_add_distrib)
  also have "\<dots> = [data ! nat offset, data ! (nat offset + 1)]"
    using assms by (intro take_2_drop) linarith
  finally show ?thesis
    by (simp add: unpack_le_def le_value_def le16_at_def)
qed

lemma unpack_H_le_at2:
  assumes "0 \<le> offset" and "offset + 4 \<le> int (length data)"
  shows "unpack_H_le (py_slice data (offset + 2) (offset + 4)) = Inr (le16_at data (offset + 2))"
proof -
  have "offset + 2 + 2 = offset + 4" by simp
  with unpack_H_le_at [of "offset + 2" data] assms show ?thesis by simp
qed

lemma le16_at_nonneg: "0 \<le> le16_at data offset"
  by (simp add: le16_at_def)

lemma decode_param_total: "\<exists>d. decode_param pid v = Inr d"
proof -
  have "length v \<ge> 4 \<Longrightarrow> \<exists>k. unpack_I_le (py_slice v 0 4) = Inr k"
    by (simp add: unpack_le_def py_slice_nonneg)
  then show ?thesis
    by (auto simp: decode_param_def)
qed

lemma read_param_total: "\<exists>p. read_param data offset pid len = Inr p"
  using decode_param_total [of pid]
  by (auto simp: read_param_def Let_def split: sum.splits) (metis sum.distinct(1))+

lemma read_param_fields:
  assumes "read_param data offset pid len = Inr p"
  shows "par_pid p = pid" and "par_length p = len" and "par_offset p = offset"
    and "par_value p = (if offset + 4 + len \<le> int (length data)
           then py_slice data (offset + 4) (offset + 4 + len) else [])"
    and "decode_param pid (par_value p) = Inr (par_decoded p)"
  using assms by (auto simp: read_param_def Let_def split: sum.splits)

lemma parse_cdr_loop_exit:
  "\<not> offset + 4 \<le> int (length data) \<Longrightarrow> parse_cdr_loop data offset params = Inr params"
  by (simp add: parse_cdr_loop.simps [of data offset params])

lemma parse_cdr_loop_sentinel:
  assumes "0 \<le> offset" and "offset + 4 \<le> int (length data)"
    and "le16_at data offset = 0x0001"
  shows "parse_cdr_loop data offset params = Inr params"
  using assms unpack_H_le_at [of offset data] unpack_H_le_at2 [of offset data]
  by (simp add: parse_cdr_loop.simps [of data offset params])

lemma parse_cdr_loop_step:
  assumes "0 \<le> offset" and "offset + 4 \<le> int (length data)"
    and "le16_at data offset \<noteq> 0x0001"
    and "read_param data offset (le16_at data offset) (le16_at data (offset + 2)) = Inr p"
  shows "parse_cdr_loop data offset params
    = parse_cdr_loop data (offset + 4 + pad4 (le16_at data (offset + 2))) (params @ [p])"
  using assms unpack_H_le_at [of offset data] unpack_H_le_at2 [of offset data]
  by (simp add: parse_cdr_loop.simps [of data offset params] pad4_eq_minus4)

lemma parse_cdr_loop_emitted:
  "0 \<le> offset \<Longrightarrow>
   \<exists>qs. parse_cdr_loop data offset params = Inr (params @ qs)
     \<and> (\<forall>q\<in>set qs. emitted_at data q)
     \<and> (\<forall>i<length qs. overruns data (qs ! i) \<longrightarrow> i = length qs - 1)"
proof (induction data offset params rule: parse_cdr_loop.induct)
  case (1 data offset params)
  show ?case
  proof (cases "offset + 4 \<le> int (length data)")
    case False
    then show ?thesis by (simp add: parse_cdr_loop_exit)
  next
    case True
    define pid where "pid = le16_at data offset"
    define len where "len = le16_at data (offset + 2)"
    have u1: "unpack_H_le (py_slice data offset (offset + 2)) = Inr pid"
      using "1.prems" True by (simp add: unpack_H_le_at pid_def)
    have u2: "unpack_H_le (py_slice data (offset + 2) (offset + 4)) = Inr len"
      using "1.prems" True by (simp add: unpack_H_le_at2 len_def)
    show ?thesis
    proof (cases "pid = 0x0001")
      case True
      then show ?thesis
        using "1.prems" \<open>offset + 4 \<le> int (length data)\<close>
        by (simp add: parse_cdr_loop_sentinel pid_def)
    next
      case False
      obtain p where p: "read_param data offset pid len = Inr p"
        using read_param_total by blast
      note f = read_param_fields [OF p]
      have len0: "0 \<le> len" by (simp add: len_def le16_at_nonneg)
      have "0 \<le> offset + 4 + pad4 len"
        using "1.prems" len0 pad4_bounds(1) [of len] by linarith
      then have next0: "0 \<le> offset + 4 + ((len + 3) AND NOT 3)"
        by (simp add: pad4_eq_minus4)
      from "1.IH" [OF True u1 u2 False p next0]
      obtain qs where r: "parse_cdr_loop data (offset + 4 + ((len + 3) AND NOT 3)) (params @ [p])
            = Inr ((params @ [p]) @ qs)"
        and e: "\<forall>q\<in>set qs. emitted_at data q"
        and l: "\<forall>i<length qs. overruns data (qs ! i) \<longrightarrow> i = length qs - 1"
        by blast
      have step: "parse_cdr_loop data offset params = Inr (params @ (p # qs))"
        using parse_cdr_loop_step [of offset data p params] "1.prems" True False p r
        by (simp add: pid_def len_def pad4_eq_minus4)
      have ep: "emitted_at data p"
        using "1.prems" True False p f(1-3) by (simp add: emitted_at_def pid_def len_def)
      have last: "qs = []" if "overruns data p"
      proof -
        have "\<not> (offset + 4 + pad4 len) + 4 \<le> int (length data)"
          using that f(2,3) pad4_bounds(1) [of len] unfolding overruns_def by linarith
        then have "\<not> (offset + 4 + ((len + 3) AND NOT 3)) + 4 \<le> int (length data)"
          by (simp add: pad4_eq_minus4)
        then have "parse_cdr_loop data (offset + 4 + ((len + 3) AND NOT 3)) (params @ [p])
            = Inr (params @ [p])"
          by (rule parse_cdr_loop_exit)
        with r show ?thesis by simp
      qed
      have "\<forall>i<length (p # qs). overruns data ((p # qs) ! i) \<longrightarrow> i = length (p # qs) - 1"
      proof (intro allI impI)
        fix i assume i: "i < length (p # qs)" and o: "overruns data ((p # qs) ! i)"
        show "i = length (p # qs) - 1"
        proof (cases i)
          case 0
          with o last show ?thesis by simp
        next
          case (Suc j)
          with i o l have "j = length qs - 1" and "j < length qs" by auto
          with Suc show ?thesis by simp
        qed
      qed
      with step e ep show ?thesis
        by (intro exI [of _ "p # qs"]) simp
    qed
  qed
qed

lemma cursor_reaches_le: "cursor_reaches data a b \<Longrightarrow> a \<le> b"
proof (induction rule: cursor_reaches.induct)
  case (here a)
  show ?case by simp
next
  case (skip a b)
  then show ?case
    using pad4_bounds(1) [of "le16_at data (a + 2)"] le16_at_nonneg [of data "a + 2"]
    by linarith
qed

lemma le16_at_cong:
  assumes "take n data' = take n data" and "0 \<le> a" and "nat a + 2 \<le> n"
  shows "le16_at data' a = le16_at data a"
proof -
  have "data' ! i = data ! i" if "i < n" for i
    using that assms(1) by (metis nth_take)
  then show ?thesis
    using assms(3) by (simp add: le16_at_def)
qed

lemma py_slice_cong:
  assumes "take n data' = take n data" and "0 \<le> i" and "i \<le> j" and "nat j \<le> n"
  shows "py_slice data' i j = py_slice data i j"
proof -
  have "take (nat j) (take n data') = take (nat j) (take n data)"
    using assms(1) by simp
  then have tj: "take (nat j) data' = take (nat j) data"
    using assms(4) by (simp add: min_def)
  have "py_slice data' i j = drop (nat i) (take (nat j) data')"
    and "py_slice data i j = drop (nat i) (take (nat j) data)"
    using assms(2,3) by (simp_all add: py_slice_nonneg drop_take)
  then show ?thesis
    by (simp only: tj)
qed

lemma parse_cdr_loop_suffix:
  assumes "cursor_reaches data a s" and "0 \<le> a"
    and "s + 4 \<le> int (length data)" and "le16_at data s = 0x0001"
    and "take (nat s + 4) data' = take (nat s + 4) data" and "s + 4 \<le> int (length data')"
  shows "parse_cdr_loop data' a params = parse_cdr_loop data a params"
  using assms
proof (induction arbitrary: params rule: cursor_reaches.induct)
  case (here a)
  have "le16_at data' a = 0x0001"
    using here le16_at_cong [of "nat a + 4" data' data a] by simp
  then show ?case
    using here by (simp add: parse_cdr_loop_sentinel)
next
  case (skip a b)
  define len where "len = le16_at data (a + 2)"
  have len0: "0 \<le> len" by (simp add: len_def le16_at_nonneg)
  have nb: "a + 4 + pad4 len \<le> b"
    using skip.hyps(3) cursor_reaches_le unfolding len_def by blast
  have in': "a + 4 \<le> int (length data')"
    using nb skip.prems(5) len0 pad4_bounds(1) [of len] by linarith
  have pid: "le16_at data' a = le16_at data a"
    using skip.prems(1,4) nb len0 pad4_bounds(1) [of len]
    by (intro le16_at_cong [of "nat b + 4"]) (simp, simp, linarith)
  have len': "le16_at data' (a + 2) = len"
    unfolding len_def
    using skip.prems(1,4) nb len0 pad4_bounds(1) [of len]
    by (intro le16_at_cong [of "nat b + 4"]) (simp, simp, linarith)
  have fits: "a + 4 + len \<le> int (length data)" "a + 4 + len \<le> int (length data')"
    using nb skip.prems(2,5) pad4_bounds(1) [of len] by linarith+
  have "py_slice data' (a + 4) (a + 4 + len) = py_slice data (a + 4) (a + 4 + len)"
    using skip.prems(1,4) nb len0 pad4_bounds(1) [of len]
    by (intro py_slice_cong [of "nat b + 4"]) (simp, simp, simp, linarith)
  then have rp: "read_param data' a pid len = read_param data a pid len" for pid
    using fits by (simp add: read_param_def)
  obtain p where p: "read_param data a (le16_at data a) len = Inr p"
    using read_param_total by blast
  have "parse_cdr_loop data' a params = parse_cdr_loop data' (a + 4 + pad4 len) (params @ [p])"
    using parse_cdr_loop_step [of a data' p params] skip.prems(1) in' skip.hyps(2) p rp pid len'
    by simp
  also have "\<dots> = parse_cdr_loop data (a + 4 + pad4 len) (params @ [p])"
    using skip.IH [of "params @ [p]"] skip.prems len0 pad4_bounds(1) [of len]
    by (simp add: len_def)
  also have "\<dots> = parse_cdr_loop data a params"
    using parse_cdr_loop_step [of a data p params] skip.prems(1) skip.hyps(1,2) p
    by (simp add: len_def)
  finally show ?case .
qed

lemma parse_cdr_parameter_list_loop:
  "4 \<le> length data \<Longrightarrow> parse_cdr_parameter_list data = parse_cdr_loop data 4 []"
  using unpack_H_le_at [of 0 data] by (simp add: parse_cdr_parameter_list_def)

lemma parse_cdr_parameter_list_emitted:
  "\<exists>ps. parse_cdr_parameter_list data = Inr ps
     \<and> (\<forall>p\<in>set ps. emitted_at data p)
     \<and> (\<forall>i<length ps. overruns data (ps ! i) \<longrightarrow> i = length ps - 1)"
proof (cases "4 \<le> length data")
  case True
  then show ?thesis
    using parse_cdr_loop_emitted [of 4 data "[]"] by (simp add: parse_cdr_parameter_list_loop)
next
  case False
  then show ?thesis by (simp add: parse_cdr_parameter_list_def)
qed

text \<open>
  Claim C5.  At a record position \<open>offset\<close> of the parameter-list loop (four header bytes
  inside the buffer): if the 16-bit little-endian parameter id there is the sentinel
  \<open>0x0001\<close>, decoding halts with exactly the parameters gathered so far, whatever bytes
  follow; otherwise one parameter for that record is appended and the cursor advances by
  \<open>4 + pad4(length)\<close>, where \<open>pad4\<close> is the least multiple of 4 not below the declared
  length.  The decoder starts this loop at offset 4, never returns a parameter whose id is
  the sentinel, and when its cursor reaches a sentinel record the result does not depend
  on the bytes after that record.
\<close>

theorem C5_sentinel_halts:
  assumes "0 \<le> offset" and "offset + 4 \<le> int (length data)"
  shows "(le16_at data offset = 0x0001 \<longrightarrow> parse_cdr_loop data offset params = Inr params)
    \<and> (le16_at data offset \<noteq> 0x0001 \<longrightarrow>
         (\<exists>p. par_pid p = le16_at data offset \<and> par_offset p = offset
            \<and> parse_cdr_loop data offset params
              = parse_cdr_loop data (offset + 4 + pad4 (le16_at data (offset + 2)))
                  (params @ [p])))
    \<and> le16_at data (offset + 2) \<le> pad4 (le16_at data (offset + 2))
    \<and> pad4 (le16_at data (offset + 2)) < le16_at data (offset + 2) + 4
    \<and> pad4 (le16_at data (offset + 2)) mod 4 = 0
    \<and> parse_cdr_parameter_list data = parse_cdr_loop data 4 []
    \<and> (\<exists>ps. parse_cdr_parameter_list data = Inr ps \<and> (\<forall>p\<in>set ps. par_pid p \<noteq> 0x0001))
    \<and> (cursor_reaches data 4 offset \<and> le16_at data offset = 0x0001 \<longrightarrow>
         (\<forall>rest. parse_cdr_parameter_list (take (nat offset + 4) data @ rest)
            = parse_cdr_parameter_list data))"
proof -
  have a: "le16_at data offset = 0x0001 \<longrightarrow> parse_cdr_loop data offset params = Inr params"
    using assms by (simp add: parse_cdr_loop_sentinel)
  have b: "\<exists>p. par_pid p = le16_at data offset \<and> par_offset p = offset
            \<and> parse_cdr_loop data offset params
              = parse_cdr_loop data (offset + 4 + pad4 (le16_at data (offset + 2)))
                  (params @ [p])"
    if "le16_at data offset \<noteq> 0x0001"
  proof -
    obtain p where p: "read_param data offset (le16_at data offset) (le16_at data (offset + 2))
        = Inr p"
      using read_param_total by blast
    from parse_cdr_loop_step [OF assms that p, of params] read_param_fields(1,3) [OF p]
    show ?thesis by blast
  qed
  have len4: "4 \<le> length data" using assms by linarith
  have d: "parse_cdr_parameter_list data = parse_cdr_loop data 4 []"
    using len4 by (rule parse_cdr_parameter_list_loop)
  have e: "\<exists>ps. parse_cdr_parameter_list data = Inr ps \<and> (\<forall>p\<in>set ps. par_pid p \<noteq> 0x0001)"
    using parse_cdr_parameter_list_emitted [of data] by (auto simp: emitted_at_def)
  have f: "parse_cdr_parameter_list (take (nat offset + 4) data @ rest)
      = parse_cdr_parameter_list data"
    if r: "cursor_reaches data 4 offset" and s: "le16_at data offset = 0x0001" for rest
  proof -
    let ?d = "take (nat offset + 4) data @ rest"
    have l: "length (take (nat offset + 4) data) = nat offset + 4"
      using assms by simp
    have t: "take (nat offset + 4) ?d = take (nat offset + 4) data"
      using l by simp
    have n: "offset + 4 \<le> int (length ?d)"
      using l assms(1) by simp
    have "parse_cdr_loop ?d 4 [] = parse_cdr_loop data 4 []"
      using parse_cdr_loop_suffix [OF r _ assms(2) s t n] by simp
    moreover have "4 \<le> length ?d" using n assms(1) by linarith
    ultimately show ?thesis
      using d by (simp only: parse_cdr_parameter_list_loop)
  qed
  from a b d e f pad4_bounds [of "le16_at data (offset + 2)"] show ?thesis
    by blast
qed

text \<open>
  Claim C9.  A record that is not the sentinel and whose declared length extends past the
  end of the buffer (\<open>offset + 4 + length > len(buffer)\<close>) is still emitted, with its
  declared length and with the empty byte string as raw value, and it ends the loop.  In
  the result of the decoder, which never raises, every such parameter has an empty raw
  value and is the last one.
\<close>

theorem C9_overrun_param:
  "(\<forall>offset params.
      0 \<le> offset \<and> offset + 4 \<le> int (length data) \<and> le16_at data offset \<noteq> 0x0001
      \<and> offset + 4 + le16_at data (offset + 2) > int (length data) \<longrightarrow>
      (\<exists>p. parse_cdr_loop data offset params = Inr (params @ [p])
         \<and> par_pid p = le16_at data offset \<and> par_length p = le16_at data (offset + 2)
         \<and> par_offset p = offset \<and> par_value p = []))
   \<and> (\<exists>ps. parse_cdr_parameter_list data = Inr ps
        \<and> (\<forall>i<length ps.
              par_offset (ps ! i) + 4 + par_length (ps ! i) > int (length data) \<longrightarrow>
              par_value (ps ! i) = [] \<and> i = length ps - 1))"
proof -
  have a: "\<exists>p. parse_cdr_loop data offset params = Inr (params @ [p])
         \<and> par_pid p = le16_at data offset \<and> par_length p = le16_at data (offset + 2)
         \<and> par_offset p = offset \<and> par_value p = []"
    if h: "0 \<le> offset" "offset + 4 \<le> int (length data)" "le16_at data offset \<noteq> 0x0001"
      "offset + 4 + le16_at data (offset + 2) > int (length data)" for offset params
  proof -
    obtain p where p: "read_param data offset (le16_at data offset) (le16_at data (offset + 2))
        = Inr p"
      using read_param_total by blast
    note f = read_param_fields [OF p]
    have "\<not> (offset + 4 + pad4 (le16_at data (offset + 2))) + 4 \<le> int (length data)"
      using h(4) pad4_bounds(1) [of "le16_at data (offset + 2)"] by linarith
    then have "parse_cdr_loop data (offset + 4 + pad4 (le16_at data (offset + 2))) (params @ [p])
        = Inr (params @ [p])"
      by (rule parse_cdr_loop_exit)
    then have "parse_cdr_loop data offset params = Inr (params @ [p])"
      using parse_cdr_loop_step [OF h(1-3) p, of params] by simp
    moreover have "par_value p = []"
      using f(4) h(4) by simp
    ultimately show ?thesis
      using f(1-3) by blast
  qed
  obtain ps where ps: "parse_cdr_parameter_list data = Inr ps"
    and e: "\<forall>p\<in>set ps. emitted_at data p"
    and l: "\<forall>i<length ps. overruns data (ps ! i) \<longrightarrow> i = length ps - 1"
    using parse_cdr_parameter_list_emitted by blast
  have "par_value (ps ! i) = [] \<and> i = length ps - 1"
    if i: "i < length ps"
      and o: "par_offset (ps ! i) + 4 + par_length (ps ! i) > int (length data)" for i
  proof -
    have "emitted_at data (ps ! i)" using e i by simp
    then have "read_param data (par_offset (ps ! i)) (par_pid (ps ! i)) (par_length (ps ! i))
        = Inr (ps ! i)"
      unfolding emitted_at_def by blast
    from read_param_fields(4) [OF this] o have "par_value (ps ! i) = []" by simp
    moreover have "i = length ps - 1"
      using l i o by (simp add: overruns_def)
    ultimately show ?thesis by simp
  qed
  with ps a show ?thesis by blast
qed

lemmas cdr_eval = parse_cdr_parameter_list_def parse_cdr_loop.simps unpack_le_def py_slice_def
  py_slice_to_def py_clamp_def le_value_def read_param_def decode_param_def decode_string_def
  PID_MAP_def Let_def format_04X_def ascii_def bytes_hex_def hex_digit_lower_def
  hex_digit_upper_def str_int_def is_continuation_byte_def

theorem C5_sentinel_halts_witness:
  "(0 :: int) \<le> 12
   \<and> cursor_reaches
        [0x00, 0x03, 0x00, 0x00, 0x1D, 0x00, 0x03, 0x00, 0x01, 0x00, 0x00, 0x00,
         0x01, 0x00, 0x00, 0x00, 0x1A, 0x00, 0x0C, 0x00, 0x01, 0x00, 0x00, 0x00,
         0x00, 0x00, 0x00, 0x00, 0x00, 0x00, 0x00, 0x00] 4 12
   \<and> le16_at
        [0x00, 0x03, 0x00, 0x00, 0x1D, 0x00, 0x03, 0x00, 0x01, 0x00, 0x00, 0x00,
         0x01, 0x00, 0x00, 0x00, 0x1A, 0x00, 0x0C, 0x00, 0x01, 0x00, 0x00, 0x00,
         0x00, 0x00, 0x00, 0x00, 0x00, 0x00, 0x00, 0x00] 12 = 0x0001
   \<and> parse_cdr_parameter_list
        [0x00, 0x03, 0x00, 0x00, 0x1D, 0x00, 0x03, 0x00, 0x01, 0x00, 0x00, 0x00,
         0x01, 0x00, 0x00, 0x00, 0x1A, 0x00, 0x0C, 0x00, 0x01, 0x00, 0x00, 0x00,
         0x00, 0x00, 0x00, 0x00, 0x00, 0x00, 0x00, 0x00]
      = Inr [\<lparr>par_pid = 0x1D, par_name = ''PID_PRESENTATION'', par_length = 3,
              par_value = [0x01, 0x00, 0x00], par_offset = 4, par_decoded = None\<rparr>]
   \<and> parse_cdr_parameter_list
        [0x00, 0x03, 0x00, 0x00, 0x1D, 0x00, 0x03, 0x00, 0x01, 0x00, 0x00, 0x00,
         0x01, 0x00, 0x00, 0x00, 0x04, 0x00, 0x00, 0x00]
      = Inr [\<lparr>par_pid = 0x1D, par_name = ''PID_PRESENTATION'', par_length = 3,
              par_value = [0x01, 0x00, 0x00], par_offset = 4, par_decoded = None\<rparr>]
   \<and> parse_cdr_loop
        [0x00, 0x03, 0x00, 0x00, 0x1D, 0x00, 0x03, 0x00, 0x01, 0x00, 0x00, 0x00,
         0x01, 0x00, 0x00, 0x00, 0x1A, 0x00, 0x0C, 0x00, 0x01, 0x00, 0x00, 0x00,
        0x00, 0x00, 0x00, 0x00, 0x00, 0x00, 0x00, 0x00] 12 [] = Inr []"
proof -
  let ?D = "[0x00, 0x03, 0x00, 0x00, 0x1D, 0x00, 0x03, 0x00, 0x01, 0x00, 0x00, 0x00,
         0x01, 0x00, 0x00, 0x00, 0x1A, 0x00, 0x0C, 0x00, 0x01, 0x00, 0x00, 0x00,
         0x00, 0x00, 0x00, 0x00, 0x00, 0x00, 0x00, 0x00 :: byte]"
  have h1: "(0 :: int) \<le> 12" by simp
  have h2: "12 + 4 \<le> int (length ?D)" by simp
  have s: "le16_at ?D 12 = 0x0001" by (simp add: le16_at_def)
  have "cursor_reaches ?D (4 + 4 + pad4 (le16_at ?D (4 + 2))) 12"
    using cursor_reaches.here [of ?D 12] by (simp add: le16_at_def pad4_def)
  then have r: "cursor_reaches ?D 4 12"
    by (rule cursor_reaches.skip [rotated 2]) (simp_all add: le16_at_def)
  note c = C5_sentinel_halts [OF h1 h2, of "[]"]
  have e: "parse_cdr_parameter_list ?D
      = Inr [\<lparr>par_pid = 0x1D, par_name = ''PID_PRESENTATION'', par_length = 3,
              par_value = [0x01, 0x00, 0x00], par_offset = 4, par_decoded = None\<rparr>]"
    by (simp add: cdr_eval)
  from c r s have "parse_cdr_parameter_list (take (nat 12 + 4) ?D @ [0x04, 0x00, 0x00, 0x00])
      = parse_cdr_parameter_list ?D"
    by blast
  then have t: "parse_cdr_parameter_list
        [0x00, 0x03, 0x00, 0x00, 0x1D, 0x00, 0x03, 0x00, 0x01, 0x00, 0x00, 0x00,
         0x01, 0x00, 0x00, 0x00, 0x04, 0x00, 0x00, 0x00] = parse_cdr_parameter_list ?D"
    by simp
  from c s have "parse_cdr_loop ?D 12 [] = Inr []" by blast
  with h1 r s e t show ?thesis by simp
qed

theorem C9_overrun_param_witness:
  "(0 :: int) \<le> 4
   \<and> le16_at [0x00, 0x03, 0x00, 0x00, 0x77, 0x77, 0xC8, 0x00, 0x01, 0x02] 4 \<noteq> 0x0001
   \<and> 4 + 4 + le16_at [0x00, 0x03, 0x00, 0x00, 0x77, 0x77, 0xC8, 0x00, 0x01, 0x02] (4 + 2)
        > int (length [0x00, 0x03, 0x00, 0x00, 0x77, 0x77, 0xC8, 0x00, 0x01, 0x02 :: byte])
   \<and> parse_cdr_parameter_list [0x00, 0x03, 0x00, 0x00, 0x77, 0x77, 0xC8, 0x00, 0x01, 0x02]
      = Inr [\<lparr>par_pid = 0x7777, par_name = ''UNKNOWN_0x7777'', par_length = 200,
              par_value = [], par_offset = 4, par_decoded = None\<rparr>]
   \<and> (\<exists>p. parse_cdr_loop [0x00, 0x03, 0x00, 0x00, 0x77, 0x77, 0xC8, 0x00, 0x01, 0x02] 4 []
          = Inr ([] @ [p])
        \<and> par_pid p = 0x7777 \<and> par_length p = 200 \<and> par_offset p = 4 \<and> par_value p = [])"
proof -
  let ?D = "[0x00, 0x03, 0x00, 0x00, 0x77, 0x77, 0xC8, 0x00, 0x01, 0x02 :: byte]"
  have h: "(0 :: int) \<le> 4 \<and> 4 + 4 \<le> int (length ?D) \<and> le16_at ?D 4 \<noteq> 0x0001
      \<and> 4 + 4 + le16_at ?D (4 + 2) > int (length ?D)"
    by (simp add: le16_at_def)
  have v: "le16_at ?D 4 = 0x7777" "le16_at ?D (4 + 2) = 200"
    by (simp_all add: le16_at_def)
  have e: "parse_cdr_parameter_list ?D
      = Inr [\<lparr>par_pid = 0x7777, par_name = ''UNKNOWN_0x7777'', par_length = 200,
              par_value = [], par_offset = 4, par_decoded = None\<rparr>]"
    by (simp add: cdr_eval)
  from C9_overrun_param [of ?D] h
  have "\<exists>p. parse_cdr_loop ?D 4 [] = Inr ([] @ [p])
         \<and> par_pid p = le16_at ?D 4 \<and> par_length p = le16_at ?D (4 + 2)
         \<and> par_offset p = 4 \<and> par_value p = []"
    by blast
  with h e show ?thesis unfolding v by blast
qed

lemma decode_string_short:
  "length v < 4 \<Longrightarrow> decode_string v = ascii ''<decode error>''"
  by (simp add: decode_string_def unpack_le_def py_slice_to_nonneg)

lemma decode_string_long:
  assumes "4 \<le> length v"
  shows "decode_string v = utf8_decode_ignore
    (take (nat (uint (v ! 0) + 256 * uint (v ! 1) + 65536 * uint (v ! 2)
                  + 16777216 * uint (v ! 3)) - 1) (drop 4 v))"
proof -
  define n where "n = uint (v ! 0) + 256 * uint (v ! 1) + 65536 * uint (v ! 2)
                  + 16777216 * uint (v ! 3)"
  have n0: "0 \<le> n" by (simp add: n_def)
  have "py_slice_to v 4 = [v ! 0, v ! 1, v ! 2, v ! 3]"
    using assms take_4_drop [of 0 v] by (simp add: py_slice_to_nonneg numeral_2_eq_2)
  then have u: "unpack_I_le (py_slice_to v 4) = Inr n"
    by (simp add: unpack_le_def le_value_def n_def)
  have "py_slice v 4 (4 + n - 1) = take (nat n - 1) (drop 4 v)"
  proof (cases "n = 0")
    case True
    then show ?thesis by (simp add: py_slice_def py_clamp_def)
  next
    case False
    with n0 have "4 \<le> 4 + n - 1" by simp
    then have "py_slice v 4 (4 + n - 1) = take (nat (4 + n - 1) - nat 4) (drop (nat 4) v)"
      by (intro py_slice_nonneg) simp_all
    moreover have "nat (4 + n - 1) - nat 4 = nat n - 1" using n0 False by simp
    ultimately show ?thesis by simp
  qed
  with u show ?thesis
    by (simp add: decode_string_def n_def)
qed

text \<open>
  Claim C2, as stated, fails.  A topic-name value whose length prefix is 10 with only the
  four bytes \<open>abcd\<close> behind it decodes, without any marker, to the truncated string
  \<open>abcd\<close>.
\<close>

theorem C2_counterexample:
  "parse_cdr_parameter_list
      [0x00, 0x03, 0x00, 0x00, 0x03, 0x00, 0x08, 0x00, 0x0A, 0x00, 0x00, 0x00,
       0x61, 0x62, 0x63, 0x64]
     = Inr [\<lparr>par_pid = 0x0003, par_name = ''PID_TOPIC_NAME'', par_length = 8,
             par_value = [0x0A, 0x00, 0x00, 0x00, 0x61, 0x62, 0x63, 0x64], par_offset = 4,
             par_decoded = Some (ascii ''abcd'')\<rparr>]
   \<and> le_value [0x0A, 0x00, 0x00, 0x00] > int (length [0x61, 0x62, 0x63, 0x64 :: byte])
   \<and> ascii ''abcd'' \<noteq> ascii ''<decode error>''"
  by (simp add: cdr_eval)

text \<open>
  Claim C2, amended.  The decoder never raises.  For every topic-name or type-name
  parameter it returns, the decoded value is the marker \<open><decode error>\<close> when the raw
  value has fewer than 4 bytes, so that the length prefix cannot be read (this includes
  the empty raw value of a record that overruns the buffer).  When the raw value has at
  least 4 bytes the prefix is not compared with the bytes that remain: the decoded value
  is the UTF-8 decoding, errors ignored, of at most \<open>prefix - 1\<close> bytes after the
  prefix, that is, of all remaining bytes when the prefix exceeds them.
\<close>

theorem C2_decode_name:
  "\<exists>ps. parse_cdr_parameter_list data = Inr ps
    \<and> (\<forall>p\<in>set ps. par_pid p = 0x0003 \<or> par_pid p = 0x0004 \<longrightarrow>
          (length (par_value p) < 4 \<longrightarrow> par_decoded p = Some (ascii ''<decode error>''))
          \<and> (4 \<le> length (par_value p) \<longrightarrow>
               par_decoded p = Some (utf8_decode_ignore
                 (take (nat (uint (par_value p ! 0) + 256 * uint (par_value p ! 1)
                          + 65536 * uint (par_value p ! 2)
                          + 16777216 * uint (par_value p ! 3)) - 1)
                    (drop 4 (par_value p))))))"
proof -
  obtain ps where ps: "parse_cdr_parameter_list data = Inr ps"
    and e: "\<forall>p\<in>set ps. emitted_at data p"
    using parse_cdr_parameter_list_emitted by blast
  have "par_decoded p = Some (decode_string (par_value p))"
    if "p \<in> set ps" and "par_pid p = 0x0003 \<or> par_pid p = 0x0004" for p
  proof -
    have "read_param data (par_offset p) (par_pid p) (par_length p) = Inr p"
      using e that(1) unfolding emitted_at_def by blast
    from read_param_fields(5) [OF this] that(2) show ?thesis
      by (auto simp: decode_param_def)
  qed
  with ps show ?thesis
    using decode_string_short decode_string_long by (intro exI [of _ ps]) auto
qed

theorem C2_decode_name_witness:
  "parse_cdr_parameter_list
      [0x00, 0x03, 0x00, 0x00, 0x03, 0x00, 0x02, 0x00, 0x61, 0x62, 0x00, 0x00,
       0x04, 0x00, 0x08, 0x00, 0x0A, 0x00, 0x00, 0x00, 0x61, 0x62, 0x63, 0x64]
     = Inr [\<lparr>par_pid = 0x0003, par_name = ''PID_TOPIC_NAME'', par_length = 2,
             par_value = [0x61, 0x62], par_offset = 4,
             par_decoded = Some (ascii ''<decode error>'')\<rparr>,
            \<lparr>par_pid = 0x0004, par_name = ''PID_TYPE_NAME'', par_length = 8,
             par_value = [0x0A, 0x00, 0x00, 0x00, 0x61, 0x62, 0x63, 0x64], par_offset = 12,
             par_decoded = Some (ascii ''abcd'')\<rparr>]
   \<and> (\<exists>ps. parse_cdr_parameter_list
          [0x00, 0x03, 0x00, 0x00, 0x03, 0x00, 0x02, 0x00, 0x61, 0x62, 0x00, 0x00,
           0x04, 0x00, 0x08, 0x00, 0x0A, 0x00, 0x00, 0x00, 0x61, 0x62, 0x63, 0x64] = Inr ps
        \<and> (\<forall>p\<in>set ps. par_pid p = 0x0003 \<or> par_pid p = 0x0004 \<longrightarrow>
              (length (par_value p) < 4 \<longrightarrow> par_decoded p = Some (ascii ''<decode error>''))
              \<and> (4 \<le> length (par_value p) \<longrightarrow>
                   par_decoded p = Some (utf8_decode_ignore
                     (take (nat (uint (par_value p ! 0) + 256 * uint (par_value p ! 1)
                              + 65536 * uint (par_value p ! 2)
                              + 16777216 * uint (par_value p ! 3)) - 1)
                        (drop 4 (par_value p)))))))"
proof -
  have e: "parse_cdr_parameter_list
      [0x00, 0x03, 0x00, 0x00, 0x03, 0x00, 0x02, 0x00, 0x61, 0x62, 0x00, 0x00,
       0x04, 0x00, 0x08, 0x00, 0x0A, 0x00, 0x00, 0x00, 0x61, 0x62, 0x63, 0x64]
     = Inr [\<lparr>par_pid = 0x0003, par_name = ''PID_TOPIC_NAME'', par_length = 2,
             par_value = [0x61, 0x62], par_offset = 4,
             par_decoded = Some (ascii ''<decode error>'')\<rparr>,
            \<lparr>par_pid = 0x0004, par_name = ''PID_TYPE_NAME'', par_length = 8,
             par_value = [0x0A, 0x00, 0x00, 0x00, 0x61, 0x62, 0x63, 0x64], par_offset = 12,
             par_decoded = Some (ascii ''abcd'')\<rparr>]"
    by (simp add: cdr_eval)
  from C2_decode_name [of "[0x00, 0x03, 0x00, 0x00, 0x03, 0x00, 0x02, 0x00, 0x61, 0x62, 0x00, 0x00,
       0x04, 0x00, 0x08, 0x00, 0x0A, 0x00, 0x00, 0x00, 0x61, 0x62, 0x63, 0x64]"] e
  show ?thesis by blast
qed

subsection \<open>Validation\<close>

lemma missing_issues_none:
  "fst ` set required \<subseteq> par_pid ` set params \<Longrightarrow> missing_issues required params = []"
  by (induction required) (auto simp: missing_issues_def)

lemma name_issues_none:
  "\<forall>p\<in>set params. par_pid p = 0x0003 \<or> par_pid p = 0x0004 \<longrightarrow> \<not> invalid_name p \<Longrightarrow>
   name_issues params = []"
  by (induction params) auto

lemma valid_name:
  "par_decoded p = Some d \<Longrightarrow> d \<noteq> [] \<Longrightarrow> d \<noteq> ascii ''<decode error>'' \<Longrightarrow> \<not> invalid_name p"
  by (simp add: invalid_name_def)

text \<open>
  The validator on its own required tables.  For a DATA submessage classified SEDP_PUB or
  SEDP_SUB whose parameters contain every id of \<open>REQUIRED_SEDP_WRITER_PIDS\<close> or
  \<open>REQUIRED_SEDP_READER_PIDS\<close>, as its role asks, and whose topic-name and type-name
  parameters all carry a decoded value that is neither empty nor the decode-error marker,
  there is no issue, and there is the one warning about the zero sequence number exactly
  when the sequence number is zero.  Any other classification gives the empty result.
\<close>

lemma validate_sedp_packet_own_tables:
  "(\<forall>d. submsg_fields submsg = Some d
      \<and> (entity_type d = ''SEDP_PUB''
            \<and> fst ` set REQUIRED_SEDP_WRITER_PIDS \<subseteq> par_pid ` set params
          \<or> entity_type d = ''SEDP_SUB''
            \<and> fst ` set REQUIRED_SEDP_READER_PIDS \<subseteq> par_pid ` set params)
      \<and> (\<forall>p\<in>set params. par_pid p = 0x0003 \<or> par_pid p = 0x0004 \<longrightarrow>
            (\<exists>s. par_decoded p = Some s \<and> s \<noteq> [] \<and> s \<noteq> ascii ''<decode error>''))
      \<longrightarrow> validate_sedp_packet submsg params
          = ([], if sequence_number d = 0
                 then [''Sequence number is 0 (should start from 1 for Reliable QoS)'']
                 else []))
   \<and> (map_option entity_type (submsg_fields submsg) \<noteq> Some ''SEDP_PUB''
       \<and> map_option entity_type (submsg_fields submsg) \<noteq> Some ''SEDP_SUB''
      \<longrightarrow> validate_sedp_packet submsg params = ([], []))"
proof (intro conjI allI impI)
  fix d
  assume a: "submsg_fields submsg = Some d
      \<and> (entity_type d = ''SEDP_PUB''
            \<and> fst ` set REQUIRED_SEDP_WRITER_PIDS \<subseteq> par_pid ` set params
          \<or> entity_type d = ''SEDP_SUB''
            \<and> fst ` set REQUIRED_SEDP_READER_PIDS \<subseteq> par_pid ` set params)
      \<and> (\<forall>p\<in>set params. par_pid p = 0x0003 \<or> par_pid p = 0x0004 \<longrightarrow>
            (\<exists>s. par_decoded p = Some s \<and> s \<noteq> [] \<and> s \<noteq> ascii ''<decode error>''))"
  then have "\<forall>p\<in>set params. par_pid p = 0x0003 \<or> par_pid p = 0x0004 \<longrightarrow> \<not> invalid_name p"
    using valid_name by blast
  then have n: "name_issues params = []"
    by (rule name_issues_none)
  from a consider
      (pub) "entity_type d = ''SEDP_PUB''"
        "fst ` set REQUIRED_SEDP_WRITER_PIDS \<subseteq> par_pid ` set params"
    | (sub) "entity_type d = ''SEDP_SUB''"
        "fst ` set REQUIRED_SEDP_READER_PIDS \<subseteq> par_pid ` set params"
    by blast
  then show "validate_sedp_packet submsg params
          = ([], if sequence_number d = 0
                 then [''Sequence number is 0 (should start from 1 for Reliable QoS)'']
                 else [])"
  proof cases
    case pub
    with a n show ?thesis
      by (simp add: validate_sedp_packet_def missing_issues_none)
  next
    case sub
    with a n show ?thesis
      by (simp add: validate_sedp_packet_def missing_issues_none)
  qed
next
  assume "map_option entity_type (submsg_fields submsg) \<noteq> Some ''SEDP_PUB''
       \<and> map_option entity_type (submsg_fields submsg) \<noteq> Some ''SEDP_SUB''"
  then show "validate_sedp_packet submsg params = ([], [])"
    by (auto simp: validate_sedp_packet_def Let_def)
qed

lemma replicate_numeral_Cons:
  "replicate (numeral k) x = x # replicate (pred_numeral k) x"
  by (simp add: numeral_eq_Suc)

lemmas submsg_eval = parse_submessages_def parse_submessages_loop.simps read_submsg_def
  parse_data_fields_def py_index_def py_slice_def py_slice_from_def py_clamp_def
  unpack_le_def unpack_be_def le_value_def be_value_def Let_def RTPS_SUBMSG_DATA_def
  classify_entity_id_def ENTITY_IDS_def

lemmas validate_eval = validate_sedp_packet_def missing_issues_def invalid_name_def
  REQUIRED_SEDP_WRITER_PIDS_def REQUIRED_SEDP_READER_PIDS_def format_04X_def
  hex_digit_upper_def ascii_def Let_def replicate_numeral_Cons

text \<open>
  Claim C3 against the code.  The validator's required tables hold the ids \<open>0x001A\<close> and
  \<open>0x001D\<close> under the names PID_RELIABILITY and PID_DURABILITY, while the PID table gives
  these names to \<open>0x0011\<close> and \<open>0x0007\<close> and calls \<open>0x001A\<close> and \<open>0x001D\<close>
  PID_DESTINATION_ORDER and PID_PRESENTATION.  A SEDP_PUB announcement carrying the five
  parameters that the PID table names PID_ENDPOINT_GUID, PID_TOPIC_NAME, PID_TYPE_NAME,
  PID_RELIABILITY and PID_DURABILITY is decoded under these very names and is then
  reported as missing PID_RELIABILITY and PID_DURABILITY.
\<close>

theorem C3_required_ids_disagree:
  "map_of PID_MAP 0x0011 = Some ''PID_RELIABILITY''
   \<and> map_of PID_MAP 0x0007 = Some ''PID_DURABILITY''
   \<and> map_of PID_MAP 0x001A = Some ''PID_DESTINATION_ORDER''
   \<and> map_of PID_MAP 0x001D = Some ''PID_PRESENTATION''
   \<and> map fst REQUIRED_SEDP_WRITER_PIDS = [0x005A, 0x0003, 0x0004, 0x001A, 0x001D]
   \<and> map fst REQUIRED_SEDP_READER_PIDS = [0x005A, 0x0003, 0x0004, 0x001A, 0x001D]
   \<and> (case parse_submessages
       [0x15, 0x05, 0x60, 0x00, 0x00, 0x00, 0x10, 0x00, 0x00, 0x00, 0x04, 0xC2,
      0x00, 0x00, 0x03, 0xC2, 0x01, 0x00, 0x00, 0x00, 0x00, 0x00, 0x00, 0x00,
      0x00, 0x03, 0x00, 0x00, 0x5A, 0x00, 0x10, 0x00, 0x01, 0x02, 0x03, 0x04,
      0x05, 0x06, 0x07, 0x08, 0x09, 0x0A, 0x0B, 0x0C, 0x0D, 0x0E, 0x0F, 0x10,
      0x03, 0x00, 0x08, 0x00, 0x02, 0x00, 0x00, 0x00, 0x54, 0x00, 0x00, 0x00,
      0x04, 0x00, 0x08, 0x00, 0x02, 0x00, 0x00, 0x00, 0x58, 0x00, 0x00, 0x00,
      0x11, 0x00, 0x0C, 0x00, 0x01, 0x00, 0x00, 0x00, 0x00, 0x00, 0x00, 0x00,
      0x00, 0x00, 0x00, 0x00, 0x07, 0x00, 0x04, 0x00, 0x01, 0x00, 0x00, 0x00,
      0x01, 0x00, 0x00, 0x00] 0 of
         Inr [s] \<Rightarrow>
           (case submsg_fields s of
              Some d \<Rightarrow>
                entity_type d = ''SEDP_PUB'' \<and> sequence_number d = 1
                \<and> (case parse_cdr_parameter_list (payload d) of
                      Inr ps \<Rightarrow>
                        map par_pid ps = [0x005A, 0x0003, 0x0004, 0x0011, 0x0007]
                        \<and> map par_name ps = [''PID_ENDPOINT_GUID'', ''PID_TOPIC_NAME'',
                             ''PID_TYPE_NAME'', ''PID_RELIABILITY'', ''PID_DURABILITY'']
                        \<and> validate_sedp_packet s ps
                          = ([''Missing required PID: PID_RELIABILITY (0x001A)'',
                              ''Missing required PID: PID_DURABILITY (0x001D)''], [])
                    | Inl e \<Rightarrow> False)
            | None \<Rightarrow> False)
       | _ \<Rightarrow> False)"
proof -
  have t: "map_of PID_MAP 0x0011 = Some ''PID_RELIABILITY''"
    "map_of PID_MAP 0x0007 = Some ''PID_DURABILITY''"
    "map_of PID_MAP 0x001A = Some ''PID_DESTINATION_ORDER''"
    "map_of PID_MAP 0x001D = Some ''PID_PRESENTATION''"
    by (simp_all add: PID_MAP_def)
  have r: "map fst REQUIRED_SEDP_WRITER_PIDS = [0x005A, 0x0003, 0x0004, 0x001A, 0x001D]"
    "map fst REQUIRED_SEDP_READER_PIDS = [0x005A, 0x0003, 0x0004, 0x001A, 0x001D]"
    by (simp_all add: REQUIRED_SEDP_WRITER_PIDS_def REQUIRED_SEDP_READER_PIDS_def)
  have "case parse_submessages
       [0x15, 0x05, 0x60, 0x00, 0x00, 0x00, 0x10, 0x00, 0x00, 0x00, 0x04, 0xC2,
      0x00, 0x00, 0x03, 0xC2, 0x01, 0x00, 0x00, 0x00, 0x00, 0x00, 0x00, 0x00,
      0x00, 0x03, 0x00, 0x00, 0x5A, 0x00, 0x10, 0x00, 0x01, 0x02, 0x03, 0x04,
      0x05, 0x06, 0x07, 0x08, 0x09, 0x0A, 0x0B, 0x0C, 0x0D, 0x0E, 0x0F, 0x10,
      0x03, 0x00, 0x08, 0x00, 0x02, 0x00, 0x00, 0x00, 0x54, 0x00, 0x00, 0x00,
      0x04, 0x00, 0x08, 0x00, 0x02, 0x00, 0x00, 0x00, 0x58, 0x00, 0x00, 0x00,
      0x11, 0x00, 0x0C, 0x00, 0x01, 0x00, 0x00, 0x00, 0x00, 0x00, 0x00, 0x00,
      0x00, 0x00, 0x00, 0x00, 0x07, 0x00, 0x04, 0x00, 0x01, 0x00, 0x00, 0x00,
      0x01, 0x00, 0x00, 0x00] 0 of
         Inr [s] \<Rightarrow>
           (case submsg_fields s of
              Some d \<Rightarrow>
                entity_type d = ''SEDP_PUB'' \<and> sequence_number d = 1
                \<and> (case parse_cdr_parameter_list (payload d) of
                      Inr ps \<Rightarrow>
                        map par_pid ps = [0x005A, 0x0003, 0x0004, 0x0011, 0x0007]
                        \<and> map par_name ps = [''PID_ENDPOINT_GUID'', ''PID_TOPIC_NAME'',
                             ''PID_TYPE_NAME'', ''PID_RELIABILITY'', ''PID_DURABILITY'']
                        \<and> validate_sedp_packet s ps
                          = ([''Missing required PID: PID_RELIABILITY (0x001A)'',
                              ''Missing required PID: PID_DURABILITY (0x001D)''], [])
                    | Inl e \<Rightarrow> False)
            | None \<Rightarrow> False)
       | _ \<Rightarrow> False"
    by (simp add: submsg_eval cdr_eval validate_eval)
  with t r show ?thesis by blast
qed

text \<open>
  Claim C8 against the code.  A SEDP_PUB announcement with sequence number 0 carries
  all five required parameters as the PID table names them, and its topic name
  \<open>T\<close> and type name \<open>X\<close> decode to strings that are neither empty nor the
  decode-error marker.  The validator returns the warning about the zero sequence
  number, and with it two issues that report PID_RELIABILITY and PID_DURABILITY as
  missing, where the claim has zero issues.
\<close>

theorem C8_issues_despite_required_names:
  "(case parse_submessages
       [0x15, 0x05, 0x60, 0x00, 0x00, 0x00, 0x10, 0x00, 0x00, 0x00, 0x04, 0xC2,
      0x00, 0x00, 0x03, 0xC2, 0x00, 0x00, 0x00, 0x00, 0x00, 0x00, 0x00, 0x00,
      0x00, 0x03, 0x00, 0x00, 0x5A, 0x00, 0x10, 0x00, 0x01, 0x02, 0x03, 0x04,
      0x05, 0x06, 0x07, 0x08, 0x09, 0x0A, 0x0B, 0x0C, 0x0D, 0x0E, 0x0F, 0x10,
      0x03, 0x00, 0x08, 0x00, 0x02, 0x00, 0x00, 0x00, 0x54, 0x00, 0x00, 0x00,
      0x04, 0x00, 0x08, 0x00, 0x02, 0x00, 0x00, 0x00, 0x58, 0x00, 0x00, 0x00,
      0x11, 0x00, 0x0C, 0x00, 0x01, 0x00, 0x00, 0x00, 0x00, 0x00, 0x00, 0x00,
      0x00, 0x00, 0x00, 0x00, 0x07, 0x00, 0x04, 0x00, 0x01, 0x00, 0x00, 0x00,
      0x01, 0x00, 0x00, 0x00] 0 of
         Inr [s] \<Rightarrow>
           (case submsg_fields s of
              Some d \<Rightarrow>
                entity_type d = ''SEDP_PUB'' \<and> sequence_number d = 0
                \<and> (case parse_cdr_parameter_list (payload d) of
                      Inr ps \<Rightarrow>
                        map par_name ps = [''PID_ENDPOINT_GUID'', ''PID_TOPIC_NAME'',
                             ''PID_TYPE_NAME'', ''PID_RELIABILITY'', ''PID_DURABILITY'']
                        \<and> map par_decoded ps
                          = [Some (ascii ''0102030405060708090a0b0c0d0e0f10''),
                             Some (ascii ''T''), Some (ascii ''X''), None, None]
                        \<and> validate_sedp_packet s ps
                          = ([''Missing required PID: PID_RELIABILITY (0x001A)'',
                              ''Missing required PID: PID_DURABILITY (0x001D)''],
                             [''Sequence number is 0 (should start from 1 for Reliable QoS)''])
                    | Inl e \<Rightarrow> False)
            | None \<Rightarrow> False)
       | _ \<Rightarrow> False)"
  by (simp add: submsg_eval cdr_eval validate_eval)

subsection \<open>Capture files\<close>

lemma read_packets_short:
  "length f < 16 \<Longrightarrow> read_packets e f n pkts = Inr (pkts, [])"
  by (simp add: read_packets.simps [of e f n pkts] f_read_def Let_def)

lemma read_packets_truncated:
  assumes "length h = 16" and "int (length d) < incl_len_of e h"
  shows "read_packets e (h @ d) n pkts
    = Inr (pkts, [''Warning: Packet '' @ str_int (n + 1) @ '' truncated''])"
  using assms
  by (simp add: read_packets.simps [of e "h @ d" n pkts] f_read_def Let_def unpack_IIII_def
      incl_len_of_def)

lemma read_packets_complete:
  assumes "complete_record e r"
  shows "read_packets e (fst r @ snd r @ rest) n pkts
    = read_packets e rest (n + 1) (pkts @ packets_of e n [r])"
  using assms
  by (simp add: read_packets.simps [of e "fst r @ snd r @ rest" n pkts] f_read_def Let_def
      unpack_IIII_def incl_len_of_def complete_record_def)

lemma read_packets_records:
  "\<forall>r\<in>set recs. complete_record e r \<Longrightarrow>
   read_packets e (record_bytes recs @ rest) n pkts
     = read_packets e rest (n + int (length recs)) (pkts @ packets_of e n recs)"
proof (induction recs arbitrary: n pkts)
  case Nil
  show ?case by (simp add: record_bytes_def)
next
  case (Cons r recs)
  have "read_packets e (record_bytes (r # recs) @ rest) n pkts
      = read_packets e (fst r @ snd r @ record_bytes recs @ rest) n pkts"
    by (simp add: record_bytes_def)
  also have "\<dots> = read_packets e (record_bytes recs @ rest) (n + 1) (pkts @ packets_of e n [r])"
    using Cons.prems by (simp add: read_packets_complete)
  also have "\<dots> = read_packets e rest (n + 1 + int (length recs))
      ((pkts @ packets_of e n [r]) @ packets_of e (n + 1) recs)"
    using Cons.prems by (intro Cons.IH) simp
  finally show ?case by (simp add: algebra_simps)
qed

lemma read_pcap_header:
  assumes "length hdr = 24"
  shows "read_pcap (hdr @ rest) =
    (if magic_of hdr = 0xa1b2c3d4 then read_packets Little rest 0 []
     else if magic_of hdr = 0xd4c3b2a1 then read_packets Big rest 0 []
     else Inl (ValueError (''Invalid pcap magic: '' @ format_08x (magic_of hdr))))"
proof -
  have "py_slice_to hdr 4 = [hdr ! 0, hdr ! 1, hdr ! 2, hdr ! 3]"
    using assms take_4_drop [of 0 hdr] by (simp add: py_slice_to_nonneg numeral_2_eq_2)
  then have "unpack_I_le (py_slice_to hdr 4) = Inr (magic_of hdr)"
    by (simp add: unpack_le_def le_value_def magic_of_def)
  then show ?thesis
    using assms by (simp add: read_pcap_def f_read_def Let_def)
qed

lemma read_pcap_short: "length file < 24 \<Longrightarrow>
    read_pcap file = Inl (ValueError ''Invalid pcap file: header too short'')"
  by (simp add: read_pcap_def f_read_def Let_def)

lemma be_value_nonneg: "0 \<le> be_value bs"
proof -
  have "0 \<le> v \<Longrightarrow> 0 \<le> foldl (\<lambda>v b. 256 * v + uint b) v bs" for v :: int
    by (induction bs arbitrary: v) simp_all
  then show ?thesis by (simp add: be_value_def)
qed

lemma incl_len_of_nonneg: "0 \<le> incl_len_of e h"
  by (cases e) (simp_all add: incl_len_of_def unpack_I_def le_value_nonneg be_value_nonneg)

lemma read_packets_total: "\<exists>r. read_packets e f n pkts = Inr r"
proof (induction "length f" arbitrary: f n pkts rule: less_induct)
  case less
  show ?case
  proof (cases "length f < 16")
    case True
    then show ?thesis by (simp add: read_packets_short)
  next
    case False
    define h where "h = take 16 f"
    define f1 where "f1 = drop 16 f"
    have lh: "length h = 16" using False by (simp add: h_def)
    have f: "f = h @ f1" by (simp add: h_def f1_def)
    show ?thesis
    proof (cases "int (length f1) < incl_len_of e h")
      case True
      then show ?thesis
        unfolding f using lh by (simp add: read_packets_truncated)
    next
      case nt: False
      define d where "d = take (nat (incl_len_of e h)) f1"
      define rest where "rest = drop (nat (incl_len_of e h)) f1"
      have "complete_record e (h, d)"
        using lh nt incl_len_of_nonneg [of e h] by (simp add: complete_record_def d_def)
      then have "read_packets e (h @ d @ rest) n pkts
          = read_packets e rest (n + 1) (pkts @ packets_of e n [(h, d)])"
        using read_packets_complete [of e "(h, d)" rest n pkts] by simp
      moreover have "f = h @ d @ rest" by (simp add: f d_def rest_def)
      moreover have "length rest < length f"
        using lh by (simp add: f rest_def)
      ultimately show ?thesis
        using less [of rest] by simp
    qed
  qed
qed

lemma magic_of_take: "4 \<le> n \<Longrightarrow> magic_of (take n file) = magic_of file"
  by (simp add: magic_of_def)

lemma read_pcap_valid:
  assumes "length hdr = 24" and "magic_of hdr = 0xa1b2c3d4 \<or> magic_of hdr = 0xd4c3b2a1"
  shows "read_pcap (hdr @ rest) = read_packets (endian_of hdr) rest 0 []"
  using assms by (auto simp: read_pcap_header endian_of_def)

lemma read_pcap_error_iff:
  "(\<exists>e. read_pcap file = Inl e) \<longleftrightarrow>
     length file < 24 \<or> (magic_of file \<noteq> 0xa1b2c3d4 \<and> magic_of file \<noteq> 0xd4c3b2a1)"
proof (cases "length file < 24")
  case True
  then show ?thesis by (simp add: read_pcap_short)
next
  case False
  define hdr where "hdr = take 24 file"
  define rest where "rest = drop 24 file"
  have l: "length hdr = 24" using False by (simp add: hdr_def)
  have f: "file = hdr @ rest" by (simp add: hdr_def rest_def)
  have m: "magic_of hdr = magic_of file" by (simp add: hdr_def magic_of_take)
  show ?thesis
  proof (cases "magic_of file = 0xa1b2c3d4 \<or> magic_of file = 0xd4c3b2a1")
    case True
    then have "magic_of hdr = 0xa1b2c3d4 \<or> magic_of hdr = 0xd4c3b2a1"
      by (simp only: m)
    then have "read_pcap (hdr @ rest) = read_packets (endian_of hdr) rest 0 []"
      using l by (rule read_pcap_valid [rotated])
    then have "read_pcap file = read_packets (endian_of hdr) rest 0 []"
      by (simp only: f [symmetric])
    moreover obtain r where "read_packets (endian_of hdr) rest 0 [] = Inr r"
      using read_packets_total by blast
    ultimately show ?thesis using True False by auto
  next
    case nm: False
    then have "magic_of hdr \<noteq> 0xa1b2c3d4 \<and> magic_of hdr \<noteq> 0xd4c3b2a1"
      by (simp only: m) simp
    then have "read_pcap (hdr @ rest)
        = Inl (ValueError (''Invalid pcap magic: '' @ format_08x (magic_of hdr)))"
      using l by (simp add: read_pcap_header)
    then have "read_pcap file
        = Inl (ValueError (''Invalid pcap magic: '' @ format_08x (magic_of hdr)))"
      by (simp only: f [symmetric])
    then show ?thesis using nm by auto
  qed
qed

text \<open>
  Claim C4.  \<open>read_pcap\<close> raises exactly when the file has fewer than the 24 bytes of
  the global header or its magic number is neither \<open>0xa1b2c3d4\<close> nor \<open>0xd4c3b2a1\<close>.
  When, after a valid header and any number of complete records, a record header
  declares more captured bytes than remain in the file, nothing is raised: one warning
  naming that packet is printed, reading stops, and the packets of the complete records
  before it are returned, the same as for the file without the truncated record.
\<close>

theorem C4_read_pcap_errors:
  "((\<exists>e. read_pcap file = Inl e) \<longleftrightarrow>
      length file < 24 \<or> (magic_of file \<noteq> 0xa1b2c3d4 \<and> magic_of file \<noteq> 0xd4c3b2a1))
   \<and> (length hdr = 24 \<and> (magic_of hdr = 0xa1b2c3d4 \<or> magic_of hdr = 0xd4c3b2a1)
       \<and> (\<forall>r\<in>set recs. complete_record (endian_of hdr) r)
       \<and> length h = 16 \<and> int (length d) < incl_len_of (endian_of hdr) h
      \<longrightarrow> read_pcap (hdr @ record_bytes recs @ h @ d)
            = Inr (packets_of (endian_of hdr) 0 recs,
                   [''Warning: Packet '' @ str_int (int (length recs) + 1) @ '' truncated''])
          \<and> read_pcap (hdr @ record_bytes recs) = Inr (packets_of (endian_of hdr) 0 recs, []))"
proof (intro conjI impI)
  show "(\<exists>e. read_pcap file = Inl e) \<longleftrightarrow>
      length file < 24 \<or> (magic_of file \<noteq> 0xa1b2c3d4 \<and> magic_of file \<noteq> 0xd4c3b2a1)"
    by (rule read_pcap_error_iff)
next
  assume a: "length hdr = 24 \<and> (magic_of hdr = 0xa1b2c3d4 \<or> magic_of hdr = 0xd4c3b2a1)
       \<and> (\<forall>r\<in>set recs. complete_record (endian_of hdr) r)
       \<and> length h = 16 \<and> int (length d) < incl_len_of (endian_of hdr) h"
  let ?e = "endian_of hdr"
  have "read_pcap (hdr @ record_bytes recs @ h @ d)
      = read_packets ?e (record_bytes recs @ h @ d) 0 []"
    using a by (simp add: read_pcap_valid)
  also have "\<dots> = read_packets ?e (h @ d) (0 + int (length recs)) ([] @ packets_of ?e 0 recs)"
    using a by (intro read_packets_records) simp
  also have "\<dots> = Inr (packets_of ?e 0 recs,
      [''Warning: Packet '' @ str_int (int (length recs) + 1) @ '' truncated''])"
    using a by (simp add: read_packets_truncated)
  finally show "read_pcap (hdr @ record_bytes recs @ h @ d)
      = Inr (packets_of ?e 0 recs,
          [''Warning: Packet '' @ str_int (int (length recs) + 1) @ '' truncated''])" .
  have "read_pcap (hdr @ record_bytes recs @ []) = read_packets ?e (record_bytes recs @ []) 0 []"
    using a by (simp only: read_pcap_valid)
  also have "\<dots> = read_packets ?e [] (0 + int (length recs)) ([] @ packets_of ?e 0 recs)"
    using a by (intro read_packets_records) simp
  also have "\<dots> = Inr (packets_of ?e 0 recs, [])"
    by (simp add: read_packets_short)
  finally show "read_pcap (hdr @ record_bytes recs) = Inr (packets_of ?e 0 recs, [])"
    by simp
qed

text \<open>
  Claim C10.  When a capture file ends, after a valid header and any number of complete
  records, with 1 to 15 bytes where a 16-byte record header is expected, reading ends
  without a warning and without an error, and the packets of the complete records are
  returned, the same as for the file without these bytes.
\<close>

theorem C10_partial_record_header:
  assumes "length hdr = 24" and "magic_of hdr = 0xa1b2c3d4 \<or> magic_of hdr = 0xd4c3b2a1"
    and "\<forall>r\<in>set recs. complete_record (endian_of hdr) r"
    and "1 \<le> length tail" and "length tail \<le> 15"
  shows "read_pcap (hdr @ record_bytes recs @ tail) = Inr (packets_of (endian_of hdr) 0 recs, [])
    \<and> read_pcap (hdr @ record_bytes recs) = Inr (packets_of (endian_of hdr) 0 recs, [])"
proof -
  let ?e = "endian_of hdr"
  have t: "read_pcap (hdr @ record_bytes recs @ t) = Inr (packets_of ?e 0 recs, [])"
    if "length t < 16" for t
  proof -
    have "read_pcap (hdr @ record_bytes recs @ t) = read_packets ?e (record_bytes recs @ t) 0 []"
      using assms(1,2) by (simp only: read_pcap_valid)
    also have "\<dots> = read_packets ?e t (0 + int (length recs)) ([] @ packets_of ?e 0 recs)"
      using assms(3) by (intro read_packets_records) simp
    also have "\<dots> = Inr (packets_of ?e 0 recs, [])"
      using that by (simp add: read_packets_short)
    finally show ?thesis .
  qed
  from t [of tail] t [of "[]"] assms(5) show ?thesis by simp
qed

lemmas pcap_eval = magic_of_def endian_of_def complete_record_def incl_len_of_def
  record_bytes_def unpack_I_def le_value_def be_value_def str_int_def

theorem C4_read_pcap_errors_witness:
  "read_pcap
      [0xD4, 0xC3, 0xB2, 0xA1, 0x02, 0x00, 0x04, 0x00, 0x00, 0x00, 0x00, 0x00,
       0x00, 0x00, 0x00, 0x00, 0xFF, 0xFF, 0x00, 0x00, 0x01, 0x00, 0x00, 0x00,
       0x01, 0x00, 0x00, 0x00, 0x02, 0x00, 0x00, 0x00, 0x03, 0x00, 0x00, 0x00,
       0x03, 0x00, 0x00, 0x00, 0x07, 0x08, 0x09,
       0x01, 0x00, 0x00, 0x00, 0x02, 0x00, 0x00, 0x00, 0x05, 0x00, 0x00, 0x00,
       0x05, 0x00, 0x00, 0x00, 0x07, 0x08]
     = Inr ([\<lparr>pkt_num = 1, pkt_ts_sec = 1, pkt_ts_usec = 2, pkt_data = [0x07, 0x08, 0x09],
              pkt_size = 3\<rparr>], [''Warning: Packet 2 truncated''])
   \<and> read_pcap
      [0xD4, 0xC3, 0xB2, 0xA1, 0x02, 0x00, 0x04, 0x00, 0x00, 0x00, 0x00, 0x00,
       0x00, 0x00, 0x00, 0x00, 0xFF, 0xFF, 0x00, 0x00, 0x01, 0x00, 0x00, 0x00,
       0x01, 0x00, 0x00, 0x00, 0x02, 0x00, 0x00, 0x00, 0x03, 0x00, 0x00, 0x00,
       0x03, 0x00, 0x00, 0x00, 0x07, 0x08, 0x09]
     = Inr ([\<lparr>pkt_num = 1, pkt_ts_sec = 1, pkt_ts_usec = 2, pkt_data = [0x07, 0x08, 0x09],
              pkt_size = 3\<rparr>], [])
   \<and> (\<exists>e. read_pcap
      [0x0A, 0x0D, 0x0D, 0x0A, 0x02, 0x00, 0x04, 0x00, 0x00, 0x00, 0x00, 0x00,
       0x00, 0x00, 0x00, 0x00, 0xFF, 0xFF, 0x00, 0x00, 0x01, 0x00, 0x00, 0x00] = Inl e)
   \<and> (\<exists>e. read_pcap [0xD4, 0xC3, 0xB2, 0xA1, 0x02, 0x00, 0x04] = Inl e)"
proof -
  let ?hdr = "[0xD4, 0xC3, 0xB2, 0xA1, 0x02, 0x00, 0x04, 0x00, 0x00, 0x00, 0x00, 0x00,
       0x00, 0x00, 0x00, 0x00, 0xFF, 0xFF, 0x00, 0x00, 0x01, 0x00, 0x00, 0x00 :: byte]"
  let ?bad = "[0x0A, 0x0D, 0x0D, 0x0A, 0x02, 0x00, 0x04, 0x00, 0x00, 0x00, 0x00, 0x00,
       0x00, 0x00, 0x00, 0x00, 0xFF, 0xFF, 0x00, 0x00, 0x01, 0x00, 0x00, 0x00 :: byte]"
  let ?h1 = "[0x01, 0x00, 0x00, 0x00, 0x02, 0x00, 0x00, 0x00, 0x03, 0x00, 0x00, 0x00,
       0x03, 0x00, 0x00, 0x00 :: byte]"
  let ?d1 = "[0x07, 0x08, 0x09 :: byte]"
  let ?h2 = "[0x01, 0x00, 0x00, 0x00, 0x02, 0x00, 0x00, 0x00, 0x05, 0x00, 0x00, 0x00,
       0x05, 0x00, 0x00, 0x00 :: byte]"
  let ?d2 = "[0x07, 0x08 :: byte]"
  have m: "magic_of ?hdr = 0xa1b2c3d4" by (simp add: magic_of_def)
  have h: "length ?hdr = 24 \<and> (magic_of ?hdr = 0xa1b2c3d4 \<or> magic_of ?hdr = 0xd4c3b2a1)
       \<and> (\<forall>r\<in>set [(?h1, ?d1)]. complete_record (endian_of ?hdr) r)
       \<and> length ?h2 = 16 \<and> int (length ?d2) < incl_len_of (endian_of ?hdr) ?h2"
    by (simp add: pcap_eval)
  from C4_read_pcap_errors [of ?bad ?hdr "[(?h1, ?d1)]" ?h2 ?d2] h
  have a: "read_pcap (?hdr @ record_bytes [(?h1, ?d1)] @ ?h2 @ ?d2)
            = Inr (packets_of (endian_of ?hdr) 0 [(?h1, ?d1)],
                   [''Warning: Packet '' @ str_int (int (length [(?h1, ?d1)]) + 1) @ '' truncated''])"
    and b: "read_pcap (?hdr @ record_bytes [(?h1, ?d1)])
            = Inr (packets_of (endian_of ?hdr) 0 [(?h1, ?d1)], [])"
    by blast+
  have "magic_of ?bad \<noteq> 0xa1b2c3d4 \<and> magic_of ?bad \<noteq> 0xd4c3b2a1"
    by (simp add: magic_of_def)
  with C4_read_pcap_errors [of ?bad ?hdr "[(?h1, ?d1)]" ?h2 ?d2]
  have c: "\<exists>e. read_pcap ?bad = Inl e" by blast
  have "length [0xD4, 0xC3, 0xB2, 0xA1, 0x02, 0x00, 0x04 :: byte] < 24" by simp
  with C4_read_pcap_errors [of "[0xD4, 0xC3, 0xB2, 0xA1, 0x02, 0x00, 0x04]" ?hdr "[]" ?h2 ?d2]
  have d: "\<exists>e. read_pcap [0xD4, 0xC3, 0xB2, 0xA1, 0x02, 0x00, 0x04] = Inl e" by blast
  from a b c d show ?thesis
    by (simp add: pcap_eval m)
qed

theorem C10_partial_record_header_witness:
  "read_pcap
      [0xD4, 0xC3, 0xB2, 0xA1, 0x02, 0x00, 0x04, 0x00, 0x00, 0x00, 0x00, 0x00,
       0x00, 0x00, 0x00, 0x00, 0xFF, 0xFF, 0x00, 0x00, 0x01, 0x00, 0x00, 0x00,
       0x01, 0x00, 0x00, 0x00, 0x02, 0x00, 0x00, 0x00, 0x03, 0x00, 0x00, 0x00,
       0x03, 0x00, 0x00, 0x00, 0x07, 0x08, 0x09,
       0x01, 0x00, 0x00, 0x00, 0x02]
     = Inr ([\<lparr>pkt_num = 1, pkt_ts_sec = 1, pkt_ts_usec = 2, pkt_data = [0x07, 0x08, 0x09],
              pkt_size = 3\<rparr>], [])
   \<and> read_pcap
      [0xD4, 0xC3, 0xB2, 0xA1, 0x02, 0x00, 0x04, 0x00, 0x00, 0x00, 0x00, 0x00,
       0x00, 0x00, 0x00, 0x00, 0xFF, 0xFF, 0x00, 0x00, 0x01, 0x00, 0x00, 0x00,
       0x01, 0x00, 0x00, 0x00, 0x02, 0x00, 0x00, 0x00, 0x03, 0x00, 0x00, 0x00,
       0x03, 0x00, 0x00, 0x00, 0x07, 0x08, 0x09]
     = Inr ([\<lparr>pkt_num = 1, pkt_ts_sec = 1, pkt_ts_usec = 2, pkt_data = [0x07, 0x08, 0x09],
              pkt_size = 3\<rparr>], [])"
proof -
  let ?hdr = "[0xD4, 0xC3, 0xB2, 0xA1, 0x02, 0x00, 0x04, 0x00, 0x00, 0x00, 0x00, 0x00,
       0x00, 0x00, 0x00, 0x00, 0xFF, 0xFF, 0x00, 0x00, 0x01, 0x00, 0x00, 0x00 :: byte]"
  let ?h1 = "[0x01, 0x00, 0x00, 0x00, 0x02, 0x00, 0x00, 0x00, 0x03, 0x00, 0x00, 0x00,
       0x03, 0x00, 0x00, 0x00 :: byte]"
  let ?d1 = "[0x07, 0x08, 0x09 :: byte]"
  let ?tail = "[0x01, 0x00, 0x00, 0x00, 0x02 :: byte]"
  have m: "magic_of ?hdr = 0xa1b2c3d4" by (simp add: magic_of_def)
  have h1: "length ?hdr = 24" by simp
  have h2: "magic_of ?hdr = 0xa1b2c3d4 \<or> magic_of ?hdr = 0xd4c3b2a1"
    by (simp add: magic_of_def)
  have h3: "\<forall>r\<in>set [(?h1, ?d1)]. complete_record (endian_of ?hdr) r"
    by (simp add: pcap_eval)
  have h4: "1 \<le> length ?tail" and h5: "length ?tail \<le> 15" by simp_all
  from C10_partial_record_header [OF h1 h2 h3 h4 h5] show ?thesis
    by (simp add: pcap_eval m)
qed

end
